theory Spec2Isabelle
  imports Main "HOL-Library.Sublist" "HOL-Library.AList"
begin

section \<open>Data model of \<open>extensions/gitpod/src/localApp.ts\<close>\<close>

text \<open>
  The three interfaces of the source become records. The optional field \<open>pid?\<close> of
  \<open>Lock\<close> and the nullable \<open>etag\<close> of \<open>LocalAppInstallation\<close> are options; JavaScript
  numbers that hold process ids, ports and millisecond timestamps are integers.
\<close>

record LocalAppConfig =
  gitpodHost :: string
  configFile :: string
  apiPort :: int
  pid :: int
  logPath :: string

record Lock =
  lock_pid :: "int option"
  lock_value :: string
  lock_deadline :: int

record LocalAppInstallation =
  path :: string
  etag :: "string option"

text \<open>
  \<open>globalState\<close> is an untyped key/value memento. A stored value is one of the three
  objects above or a value that is not an object; of the latter only its truthiness is
  ever inspected.
\<close>

datatype stored =
    LockV Lock
  | ConfigV LocalAppConfig
  | InstallationV LocalAppInstallation
  | Prim bool

type_synonym globalState = "(string \<times> stored) list"

definition gs_get :: "globalState \<Rightarrow> string \<Rightarrow> stored option" where
  "gs_get st key = map_of st key"

text \<open>\<open>update(key, undefined)\<close> removes the key, any other value replaces the entry.\<close>

definition gs_update :: "string \<Rightarrow> stored option \<Rightarrow> globalState \<Rightarrow> globalState" where
  "gs_update key v st = (case v of None \<Rightarrow> AList.delete key st | Some x \<Rightarrow> AList.update key x st)"

definition gs_keys :: "globalState \<Rightarrow> string list" where
  "gs_keys st = map fst st"

text \<open>Field reads on an untyped value: a field the object does not have reads \<open>undefined\<close>.\<close>

fun deadline_of :: "stored \<Rightarrow> int option" where
  "deadline_of (LockV l) = Some (lock_deadline l)"
| "deadline_of _ = None"

fun pid_of :: "stored \<Rightarrow> int option" where
  "pid_of (LockV l) = lock_pid l"
| "pid_of (ConfigV c) = Some (pid c)"
| "pid_of _ = None"

fun value_of :: "stored option \<Rightarrow> string option" where
  "value_of (Some (LockV l)) = Some (lock_value l)"
| "value_of _ = None"

fun truthy :: "stored option \<Rightarrow> bool" where
  "truthy None = False"
| "truthy (Some (Prim b)) = b"
| "truthy (Some _) = True"

definition lockPrefix :: string where
  "lockPrefix = ''lock/''"

definition checkStaleInterval :: int where
  "checkStaleInterval = 30000"

definition installLockTimeout :: int where
  "installLockTimeout = 300000"

text \<open>\<open>isLock\<close>: \<open>!!lock && typeof lock === 'object'\<close>.\<close>

fun isLock :: "stored option \<Rightarrow> bool" where
  "isLock None = False"
| "isLock (Some (Prim b)) = False"
| "isLock (Some _) = True"

text \<open>
  \<open>checkRunning(pid)\<close> probes the process with signal 0. The operating system is a
  parameter: \<open>alive p\<close> says that \<open>process.kill(p, 0)\<close> does not throw. The function
  returns \<open>true\<close> exactly then, and the caught error otherwise.
\<close>

definition checkRunning :: "(int \<Rightarrow> bool) \<Rightarrow> int \<Rightarrow> bool" where
  "checkRunning alive p = alive p"

section \<open>The stale-lock sweep (\<open>releaseStaleLocks\<close>, lines 81-98)\<close>

text \<open>
  The condition of line 86. A comparison with \<open>undefined\<close> is false, and
  \<open>typeof lock.pid === 'number'\<close> holds when the field is there. The sweep is one
  synchronous loop; \<open>now\<close> is the reading of \<open>Date.now()\<close> during it and \<open>alive\<close> the
  state of the processes.
\<close>

definition staleCondition :: "int \<Rightarrow> (int \<Rightarrow> bool) \<Rightarrow> stored option \<Rightarrow> bool" where
  "staleCondition now alive lock =
     (\<not> isLock lock
      \<or> (case lock of
            None \<Rightarrow> False
          | Some v \<Rightarrow>
              (case deadline_of v of None \<Rightarrow> False | Some d \<Rightarrow> now \<ge> d)
              \<or> (case pid_of v of None \<Rightarrow> False | Some p \<Rightarrow> \<not> checkRunning alive p)))"

text \<open>One iteration of the \<open>for\<close> loop of \<open>releaseLocks\<close>, and the loop over the keys.\<close>

definition releaseLocks_key :: "int \<Rightarrow> (int \<Rightarrow> bool) \<Rightarrow> string \<Rightarrow> globalState \<Rightarrow> globalState" where
  "releaseLocks_key now alive key st =
     (if prefix lockPrefix key then
        (let lock = gs_get st key in
         if staleCondition now alive lock then gs_update key None st else st)
      else st)"

fun releaseLocks_loop :: "int \<Rightarrow> (int \<Rightarrow> bool) \<Rightarrow> string list \<Rightarrow> globalState \<Rightarrow> globalState" where
  "releaseLocks_loop now alive [] st = st"
| "releaseLocks_loop now alive (key # keys) st =
     releaseLocks_loop now alive keys (releaseLocks_key now alive key st)"

definition releaseLocks :: "int \<Rightarrow> (int \<Rightarrow> bool) \<Rightarrow> globalState \<Rightarrow> globalState" where
  "releaseLocks now alive st = releaseLocks_loop now alive (gs_keys st) st"

section \<open>Cancellation, errors and the state of one extension host\<close>

text \<open>
  A cancellation token is read at fixed places of the code. The model indexes a token by
  the place that reads it: \<open>token n\<close> is the value of \<open>isCancellationRequested\<close> at the
  check on source line \<open>n\<close>. \<open>throwIfCancelled\<close> takes an optional token
  (\<open>token?.isCancellationRequested\<close>) and says whether it throws.
\<close>

type_synonym CancellationToken = "nat \<Rightarrow> bool"

definition throwIfCancelled :: "CancellationToken option \<Rightarrow> nat \<Rightarrow> bool" where
  "throwIfCancelled token site = (case token of None \<Rightarrow> False | Some t \<Rightarrow> t site)"

datatype grpc_code = Unavailable | Unknown | OtherCode nat

datatype error =
    Cancelled
  | UnexpectedDownloadResponse string int
  | Thrown string
  | RpcError grpc_code

text \<open>
  What the code does to the outside world is recorded as a trace, in program order:
  network requests, signals, file system checks, and writes to \<open>globalState\<close>.
\<close>

datatype event =
    Fetch string string
  | Kill int
  | Access string
  | Updated string
  | TmpFile string
  | Download string
  | Chmod string
  | Spawn string

record world =
  store :: globalState
  lockCount :: nat
  events :: "event list"

definition emit :: "event \<Rightarrow> world \<Rightarrow> world" where
  "emit ev w = w\<lparr>events := events w @ [ev]\<rparr>"

definition globalState_update :: "string \<Rightarrow> stored option \<Rightarrow> world \<Rightarrow> world" where
  "globalState_update key v w = emit (Updated key) (w\<lparr>store := gs_update key v (store w)\<rparr>)"

section \<open>\<open>withLock\<close> (lines 100-136)\<close>

text \<open>Decimal digits of the static counter \<open>lockCount\<close>, for the string concatenation of line 103.\<close>

definition digit :: "nat \<Rightarrow> char" where
  "digit d = ''0123456789'' ! d"

function string_of_nat :: "nat \<Rightarrow> string" where
  "string_of_nat n =
     (if n < 10 then [digit n] else string_of_nat (n div 10) @ [digit (n mod 10)])"
  by pat_completeness auto
termination
  by (relation "measure id") auto

declare string_of_nat.simps [simp del]

definition updateTimeout :: int where
  "updateTimeout = 150"

text \<open>
  What one call of \<open>withLock\<close> cannot decide itself: the session id and process id of its
  host, the clock reading of line 110 in the \<open>i\<close>-th round of the loop, what the other
  extension hosts do to the shared store while round \<open>i\<close> is suspended (lines 111 and
  114), whether the listener of line 119 has been called by the time the guarded
  operation reads its token at a given place (the event loop calls it some time after
  the caller's token has fired), and whether the timer of line 120 has cancelled the
  token source by then.
\<close>

record lock_env =
  sessionId :: string
  process_pid :: int
  dateNow :: "nat \<Rightarrow> int"
  others :: "nat \<Rightarrow> globalState \<Rightarrow> globalState"
  listenerCalled :: "nat \<Rightarrow> bool"
  timerCancelled :: "nat \<Rightarrow> bool"

text \<open>
  The \<open>while\<close> loop of lines 107-116. \<open>currentLock\<close> is \<open>undefined\<close> on entry, so the first
  round always runs. The loop reads no cancellation token. A loop that is still polling
  when the fuel is used up yields \<open>None\<close>.
\<close>

fun withLock_loop :: "nat \<Rightarrow> lock_env \<Rightarrow> string \<Rightarrow> string \<Rightarrow> int \<Rightarrow> nat \<Rightarrow> globalState \<Rightarrow> globalState option" where
  "withLock_loop 0 e lockKey v timeout i st = None"
| "withLock_loop (Suc fuel) e lockKey v timeout i st =
     (let currentLock = gs_get st lockKey;
          st1 = (if \<not> truthy currentLock
                 then gs_update lockKey
                        (Some (LockV \<lparr>lock_pid = Some (process_pid e), lock_value = v,
                                       lock_deadline = dateNow e i + timeout + updateTimeout * 2\<rparr>)) st
                 else st);
          st2 = others e i st1;
          currentLock' = gs_get st2 lockKey
      in if value_of currentLock' \<noteq> Some v
         then withLock_loop fuel e lockKey v timeout (Suc i) st2
         else Some st2)"

text \<open>
  The callback of the timer of lines 120-125, run every \<open>updateTimeout\<close> milliseconds while
  the lock is held: it reads the record and cancels the token source when the stored
  token is not the holder's. It returns the store as it leaves it and the new state of
  the token source.
\<close>

definition withLock_timer :: "string \<Rightarrow> string \<Rightarrow> globalState \<Rightarrow> bool \<Rightarrow> globalState \<times> bool" where
  "withLock_timer lockKey v st cancelled =
     (let currentLock = gs_get st lockKey
      in if value_of currentLock \<noteq> Some v then (st, True) else (st, cancelled))"

text \<open>
  The token handed to the guarded operation is that of a new source (line 118). The
  source is cancelled by the listener of line 119, which is called only once the caller's
  token has fired, and by the timer; the caller's token as such is not handed on.
\<close>

definition tokenSource_token :: "lock_env \<Rightarrow> CancellationToken option \<Rightarrow> CancellationToken" where
  "tokenSource_token e token =
     (\<lambda>site. (throwIfCancelled token site \<and> listenerCalled e site) \<or> timerCancelled e site)"

text \<open>The write of line 134.\<close>

definition withLock_release :: "string \<Rightarrow> globalState \<Rightarrow> globalState" where
  "withLock_release lockKey st = gs_update lockKey None st"

text \<open>
  The \<open>try\<close>/\<open>finally\<close> of lines 126-135: the operation returns or throws (\<open>Inr\<close> or
  \<open>Inl\<close>), then the \<open>finally\<close> block removes the record, and the outcome is passed on.
\<close>

definition withLock_guarded ::
  "string \<Rightarrow> (CancellationToken \<Rightarrow> world \<Rightarrow> (error + 'a) \<times> world) \<Rightarrow> CancellationToken \<Rightarrow> world
     \<Rightarrow> (error + 'a) \<times> world" where
  "withLock_guarded lockKey op tok w =
     (case op tok w of
        (result, w') \<Rightarrow> (result, w'\<lparr>store := withLock_release lockKey (store w')\<rparr>))"

definition withLock ::
  "nat \<Rightarrow> lock_env \<Rightarrow> string \<Rightarrow> (CancellationToken \<Rightarrow> world \<Rightarrow> (error + 'a) \<times> world) \<Rightarrow> int
     \<Rightarrow> CancellationToken option \<Rightarrow> world \<Rightarrow> ((error + 'a) \<times> world) option" where
  "withLock fuel e lockName op timeout token w =
     (let lockKey = lockPrefix @ lockName;
          v = sessionId e @ ''/'' @ string_of_nat (lockCount w);
          w0 = w\<lparr>lockCount := lockCount w + 1\<rparr>
      in case withLock_loop fuel e lockKey v timeout 0 (store w0) of
           None \<Rightarrow> None
         | Some st \<Rightarrow> Some (withLock_guarded lockKey op (tokenSource_token e token) (w0\<lparr>store := st\<rparr>)))"

text \<open>
  A host used in the examples below: session \<open>A\<close>, process 11, no other host touching
  the store, the listener called as soon as the caller's token has fired, the timer
  never firing.
\<close>

definition hostA :: lock_env where
  "hostA = \<lparr>sessionId = ''A'', process_pid = 11, dateNow = (\<lambda>i. 1000 + 150 * int i),
            others = (\<lambda>i s. s), listenerCalled = (\<lambda>n. True),
            timerCancelled = (\<lambda>n. False)\<rparr>"

section \<open>Concurrent calls of \<open>withLock\<close> on one key\<close>

text \<open>
  Several calls of \<open>withLock\<close>, in one host or in several, work on the same key of the
  shared store. Each call is named by its token (line 103). Its steps are the accesses
  to the store, each atomic on its own: the read of line 108, the write of line 111
  (taken only after a read that found no record), the re-read of line 115 after the
  wait, and the release of line 134. Between two steps of one call any steps of the
  others may fall. The record a call writes carries its token, the process id of its
  host and the deadline it computed.
\<close>

datatype pc = AtRead | AtWrite | AtVerify | Holding | Released

record shared =
  sh_store :: globalState
  sh_pc :: "string \<Rightarrow> pc"

definition attempt_step ::
  "(string \<Rightarrow> int) \<Rightarrow> (string \<Rightarrow> int) \<Rightarrow> string \<Rightarrow> string \<Rightarrow> shared \<Rightarrow> shared" where
  "attempt_step pidOf deadlineOf lockKey v s =
     (case sh_pc s v of
        AtRead \<Rightarrow>
          s\<lparr>sh_pc := (sh_pc s)(v := if \<not> truthy (gs_get (sh_store s) lockKey)
                                      then AtWrite else AtVerify)\<rparr>
      | AtWrite \<Rightarrow>
          s\<lparr>sh_store := gs_update lockKey
                          (Some (LockV \<lparr>lock_pid = Some (pidOf v), lock_value = v,
                                         lock_deadline = deadlineOf v\<rparr>)) (sh_store s),
            sh_pc := (sh_pc s)(v := AtVerify)\<rparr>
      | AtVerify \<Rightarrow>
          s\<lparr>sh_pc := (sh_pc s)(v := if value_of (gs_get (sh_store s) lockKey) \<noteq> Some v
                                      then AtRead else Holding)\<rparr>
      | Holding \<Rightarrow>
          s\<lparr>sh_store := withLock_release lockKey (sh_store s),
            sh_pc := (sh_pc s)(v := Released)\<rparr>
      | Released \<Rightarrow> s)"

text \<open>A schedule names, step by step, the call that moves next.\<close>

fun run_schedule ::
  "(string \<Rightarrow> int) \<Rightarrow> (string \<Rightarrow> int) \<Rightarrow> string \<Rightarrow> string list \<Rightarrow> shared \<Rightarrow> shared" where
  "run_schedule pidOf deadlineOf lockKey [] s = s"
| "run_schedule pidOf deadlineOf lockKey (v # sched) s =
     run_schedule pidOf deadlineOf lockKey sched (attempt_step pidOf deadlineOf lockKey v s)"

definition initial :: "globalState \<Rightarrow> shared" where
  "initial st = \<lparr>sh_store = st, sh_pc = (\<lambda>v. AtRead)\<rparr>"

text \<open>
  In a schedule no write lands on a held lock when no call performs its write (line
  111) at a moment at which a call of the given list holds the lock. Calls may read the
  key as absent together and write one after the other; the last writer's token then
  stands, and the re-read sends the others back to polling.
\<close>

fun no_write_while_held ::
  "string list \<Rightarrow> (string \<Rightarrow> int) \<Rightarrow> (string \<Rightarrow> int) \<Rightarrow> string \<Rightarrow> string list \<Rightarrow> shared \<Rightarrow> bool" where
  "no_write_while_held calls pidOf deadlineOf lockKey [] s = True"
| "no_write_while_held calls pidOf deadlineOf lockKey (v # sched) s =
     ((sh_pc s v \<noteq> AtWrite \<or> list_all (\<lambda>u. sh_pc s u \<noteq> Holding) calls)
      \<and> no_write_while_held calls pidOf deadlineOf lockKey sched
          (attempt_step pidOf deadlineOf lockKey v s))"

text \<open>
  A stronger condition on a schedule: no call passes its re-read (finds its own token
  and so is granted) at a moment at which a call of the given list stands between its
  read of an absent record and its write.
\<close>

fun no_grant_while_write_pending ::
  "string list \<Rightarrow> (string \<Rightarrow> int) \<Rightarrow> (string \<Rightarrow> int) \<Rightarrow> string \<Rightarrow> string list \<Rightarrow> shared \<Rightarrow> bool" where
  "no_grant_while_write_pending calls pidOf deadlineOf lockKey [] s = True"
| "no_grant_while_write_pending calls pidOf deadlineOf lockKey (v # sched) s =
     ((sh_pc s v \<noteq> AtVerify \<or> value_of (gs_get (sh_store s) lockKey) \<noteq> Some v
         \<or> list_all (\<lambda>u. sh_pc s u \<noteq> AtWrite) calls)
      \<and> no_grant_while_write_pending calls pidOf deadlineOf lockKey sched
          (attempt_step pidOf deadlineOf lockKey v s))"

text \<open>
  The invariant behind mutual exclusion: a holder's token is the stored one, and only
  the listed calls move.
\<close>

definition holder_inv :: "string list \<Rightarrow> string \<Rightarrow> shared \<Rightarrow> bool" where
  "holder_inv calls lockKey s =
     ((\<forall>u. sh_pc s u = Holding \<longrightarrow> value_of (gs_get (sh_store s) lockKey) = Some u)
      \<and> (\<forall>u. u \<notin> set calls \<longrightarrow> sh_pc s u = AtRead))"

text \<open>
  The invariant of the schedules that grant no lock while a write is pending: in
  addition, nobody holds the lock while a write is pending.
\<close>

definition lock_inv :: "string list \<Rightarrow> string \<Rightarrow> shared \<Rightarrow> bool" where
  "lock_inv calls lockKey s =
     ((\<forall>u. sh_pc s u = Holding \<longrightarrow> value_of (gs_get (sh_store s) lockKey) = Some u)
      \<and> (\<forall>u x. sh_pc s u = AtWrite \<longrightarrow> sh_pc s x \<noteq> Holding)
      \<and> (\<forall>u. u \<notin> set calls \<longrightarrow> sh_pc s u = AtRead))"

section \<open>Installing and starting the local app (lines 138-261)\<close>

text \<open>The part of a \<open>fetch\<close> response the code reads.\<close>

record Response =
  ok :: bool
  status :: int
  statusText :: string
  headers_etag :: "string option"
  url :: string

text \<open>
  Everything \<open>ensureLocalApp\<close> asks of its surroundings, as parameters: process
  liveness (\<open>process.kill(p, 0)\<close> does not throw), the setting
  \<open>gitpod.installationPath\<close>, \<open>process.platform\<close> and \<open>process.arch\<close>, the outcome of
  \<open>fetch\<close> for a host and path, of \<open>fs.promises.access(p, X_OK)\<close>, of \<open>tmp.file\<close> for a
  prefix, of piping the download into a file, of \<open>chmod\<close>, the port the probe server
  was given, \<open>path.parse\<close> and \<open>path.join\<close> applied to the binary's path, the opening of
  the log stream, and the outcome of \<open>spawn\<close>. An outcome that is an error stands for the
  rejected promise, the listeners that destroy a stream on cancellation included. The
  model describes the runs in which every awaited promise settles. The promise of lines
  178-181 listens for errors of the write stream only: a download body that fails
  without an error of the write stream, and without a cancellation, leaves it pending,
  and \<open>installLocalApp\<close> then never comes back; of such a run the model says nothing.
\<close>

record app_env =
  proc_alive :: "int \<Rightarrow> bool"
  configuredInstallationPath :: "string option"
  platform :: string
  arch :: string
  fetch :: "string \<Rightarrow> string \<Rightarrow> error + Response"
  access_X_OK :: "string \<Rightarrow> error option"
  tmp_file :: "string \<Rightarrow> error + string"
  pipe_body :: "string \<Rightarrow> error option"
  chmod :: "string \<Rightarrow> error option"
  listen_port :: int
  logPathOf :: "string \<Rightarrow> string"
  logStream_open :: "string \<Rightarrow> error option"
  spawn :: "string \<Rightarrow> error + int"

text \<open>Truthiness of an optional string: \<open>undefined\<close>, \<open>null\<close> and the empty string are falsy.\<close>

definition truthy_string :: "string option \<Rightarrow> bool" where
  "truthy_string s = (case s of None \<Rightarrow> False | Some x \<Rightarrow> x \<noteq> [])"

text \<open>
  \<open>downloadLocalApp\<close> (lines 138-161). The second \<open>if\<close> of line 143 is not an \<open>else if\<close>;
  the request goes to the given host with the path chosen here.
\<close>

definition downloadPath :: "string \<Rightarrow> string \<Rightarrow> string" where
  "downloadPath plat ar =
     (let a1 = (if ar = ''arm64'' then ''-arm64'' else []);
          a2 = (if ar = ''x32'' \<and> plat = ''win32'' then ''-386'' else a1)
      in if plat = ''win32'' then ''/static/bin/gitpod-local-companion-windows'' @ a2 @ ''.exe''
         else if plat = ''darwin'' then ''/static/bin/gitpod-local-companion-darwin'' @ a2
         else ''/static/bin/gitpod-local-companion-linux'' @ a2)"

definition downloadLocalApp :: "app_env \<Rightarrow> string \<Rightarrow> world \<Rightarrow> (error + Response) \<times> world" where
  "downloadLocalApp e host w =
     (fetch e host (downloadPath (platform e) (arch e)),
      emit (Fetch host (downloadPath (platform e) (arch e))) w)"

text \<open>\<open>installLocalApp\<close> (lines 163-199); the \<open>catch\<close> logs and rethrows.\<close>

definition installLocalApp ::
  "app_env \<Rightarrow> Response \<Rightarrow> CancellationToken \<Rightarrow> world \<Rightarrow> (error + LocalAppInstallation) \<times> world" where
  "installLocalApp e download token w =
     (let w1 = emit (TmpFile ''gitpod-local-companion'') w
      in case tmp_file e ''gitpod-local-companion'' of
           Inl err \<Rightarrow> (Inl err, w1)
         | Inr installationPath \<Rightarrow>
             if token 174 then (Inl Cancelled, w1)
             else
               (let w2 = emit (Download installationPath) w1
                in case pipe_body e installationPath of
                     Some err \<Rightarrow> (Inl err, w2)
                   | None \<Rightarrow>
                       if token 187 then (Inl Cancelled, w2)
                       else if platform e \<noteq> ''win32'' then
                         (let w3 = emit (Chmod installationPath) w2
                          in case chmod e installationPath of
                               Some err \<Rightarrow> (Inl err, w3)
                             | None \<Rightarrow>
                                 if token 190 then (Inl Cancelled, w3)
                                 else (Inr \<lparr>path = installationPath, etag = headers_etag download\<rparr>, w3))
                       else (Inr \<lparr>path = installationPath, etag = headers_etag download\<rparr>, w2)))"

text \<open>\<open>startLocalApp\<close> (lines 201-261).\<close>

definition startLocalApp ::
  "app_env \<Rightarrow> string \<Rightarrow> LocalAppInstallation \<Rightarrow> CancellationToken \<Rightarrow> world
     \<Rightarrow> (error + LocalAppConfig) \<times> world" where
  "startLocalApp e host installation token w =
     (let w1 = emit (TmpFile ''gitpod_ssh_config'') w
      in case tmp_file e ''gitpod_ssh_config'' of
           Inl err \<Rightarrow> (Inl err, w1)
         | Inr cfgFile \<Rightarrow>
             if token 217 then (Inl Cancelled, w1)
             else
               (let lp = logPathOf e (path installation)
                in case logStream_open e lp of
                     Some err \<Rightarrow> (Inl err, w1)
                   | None \<Rightarrow>
                       (let w2 = emit (Spawn (path installation)) w1
                        in case spawn e (path installation) of
                             Inl err \<Rightarrow> (Inl err, w2)
                           | Inr p \<Rightarrow>
                               (Inr \<lparr>gitpodHost = host, configFile = cfgFile,
                                     apiPort = listen_port e, pid = p, logPath = lp\<rparr>, w2))))"

section \<open>\<open>ensureLocalApp\<close> (lines 266-347)\<close>

text \<open>
  The typed reads \<open>get<LocalAppConfig>\<close> and \<open>get<LocalAppInstallation>\<close>. The casts are
  unchecked in the source; the model reads a key that holds a value of another shape as
  absent.
\<close>

definition get_config :: "globalState \<Rightarrow> string \<Rightarrow> LocalAppConfig option" where
  "get_config st key = (case gs_get st key of Some (ConfigV c) \<Rightarrow> Some c | _ \<Rightarrow> None)"

definition get_installation :: "globalState \<Rightarrow> string \<Rightarrow> LocalAppInstallation option" where
  "get_installation st key = (case gs_get st key of Some (InstallationV i) \<Rightarrow> Some i | _ \<Rightarrow> None)"

text \<open>The value of \<open>config\<close> after lines 267-272: the stored instance, if its process is alive.\<close>

definition runningConfig :: "app_env \<Rightarrow> globalState \<Rightarrow> string \<Rightarrow> LocalAppConfig option" where
  "runningConfig e st configKey =
     (case get_config st configKey of
        None \<Rightarrow> None
      | Some c \<Rightarrow> if \<not> checkRunning (proc_alive e) (pid c) then None else Some c)"

text \<open>
  Lines 280-286 and 313-319: the outdated process, if there is one, is sent the default
  termination signal; a failure of \<open>process.kill\<close> is logged and nothing else.
\<close>

definition kill_outdated :: "LocalAppConfig option \<Rightarrow> world \<Rightarrow> world" where
  "kill_outdated config w = (case config of None \<Rightarrow> w | Some c \<Rightarrow> emit (Kill (pid c)) w)"

text \<open>
  The branch of a configured path (lines 277-296). It ends in a thrown error, in the
  early \<open>return config\<close> of line 290 (\<open>Inr (Inl c)\<close>), or with the installation to start
  (\<open>Inr (Inr i)\<close>).
\<close>

definition ensureLocalApp_configured ::
  "app_env \<Rightarrow> string \<Rightarrow> string \<Rightarrow> LocalAppConfig option \<Rightarrow> LocalAppInstallation option
     \<Rightarrow> CancellationToken \<Rightarrow> world \<Rightarrow> (error + (LocalAppConfig + LocalAppInstallation)) \<times> world" where
  "ensureLocalApp_configured e configured installationKey config installation token w =
     (let switching = (case installation of None \<Rightarrow> False | Some i \<Rightarrow> path i \<noteq> configured);
          w1 = (if switching then kill_outdated config w else w);
          config1 = (if switching then None else config)
      in case config1 of
           Some c \<Rightarrow> (Inr (Inl c), w1)
         | None \<Rightarrow>
             (let w2 = emit (Access configured) w1
              in case access_X_OK e configured of
                   Some err \<Rightarrow> (Inl err, w2)
                 | None \<Rightarrow>
                     if token 293 then (Inl Cancelled, w2)
                     else
                       (let installation' = \<lparr>path = configured, etag = None\<rparr>;
                            w3 = globalState_update installationKey
                                   (Some (InstallationV installation')) w2
                        in if token 296 then (Inl Cancelled, w3)
                           else (Inr (Inr installation'), w3))))"

text \<open>
  Lines 298-307: the value of \<open>download\<close>, a response or a captured error. A cancellation
  seen at line 301 is thrown inside the \<open>try\<close> and so captured as well.
\<close>

definition ensureLocalApp_probe ::
  "app_env \<Rightarrow> string \<Rightarrow> CancellationToken \<Rightarrow> world \<Rightarrow> (error + Response) \<times> world" where
  "ensureLocalApp_probe e host token w =
     (case downloadLocalApp e host w of
        (Inl err, w1) \<Rightarrow> (Inl err, w1)
      | (Inr response, w1) \<Rightarrow>
          if token 301 then (Inl Cancelled, w1)
          else if \<not> ok response
            then (Inl (UnexpectedDownloadResponse (statusText response) (status response)), w1)
            else (Inr response, w1))"

text \<open>The test of lines 309-310.\<close>

definition upgradeNeeded :: "error + Response \<Rightarrow> LocalAppInstallation \<Rightarrow> bool" where
  "upgradeNeeded download installation =
     (case download of
        Inl err \<Rightarrow> False
      | Inr response \<Rightarrow>
          truthy_string (headers_etag response) \<and> headers_etag response \<noteq> etag installation)"

text \<open>Lines 334-341: with no installation left, the captured error is thrown or the download installed.\<close>

definition ensureLocalApp_install ::
  "app_env \<Rightarrow> string \<Rightarrow> error + Response \<Rightarrow> LocalAppInstallation option \<Rightarrow> CancellationToken
     \<Rightarrow> world \<Rightarrow> (error + (LocalAppConfig + LocalAppInstallation)) \<times> world" where
  "ensureLocalApp_install e installationKey download installation token w =
     (case installation of
        Some i \<Rightarrow> (Inr (Inr i), w)
      | None \<Rightarrow>
          (case download of
             Inl err \<Rightarrow> (Inl err, w)
           | Inr response \<Rightarrow>
               (case installLocalApp e response token w of
                  (Inl err, w1) \<Rightarrow> (Inl err, w1)
                | (Inr i, w1) \<Rightarrow>
                    (let w2 = globalState_update installationKey (Some (InstallationV i)) w1
                     in if token 340 then (Inl Cancelled, w2) else (Inr (Inr i), w2)))))"

text \<open>The branch without a configured path (lines 298-342).\<close>

definition ensureLocalApp_default ::
  "app_env \<Rightarrow> string \<Rightarrow> string \<Rightarrow> LocalAppConfig option \<Rightarrow> LocalAppInstallation option
     \<Rightarrow> CancellationToken \<Rightarrow> world \<Rightarrow> (error + (LocalAppConfig + LocalAppInstallation)) \<times> world" where
  "ensureLocalApp_default e host installationKey config installation token w =
     (case ensureLocalApp_probe e host token w of
        (download, w1) \<Rightarrow>
          (let upgrading = (case installation of None \<Rightarrow> False | Some i \<Rightarrow> upgradeNeeded download i);
               installation1 = (if upgrading then None else installation);
               w2 = (if upgrading then kill_outdated config w1 else w1);
               config1 = (if upgrading then None else config)
           in case config1 of
                Some c \<Rightarrow> (Inr (Inl c), w2)
              | None \<Rightarrow>
                  (case installation1 of
                     None \<Rightarrow> ensureLocalApp_install e installationKey download None token w2
                   | Some i \<Rightarrow>
                       (let w3 = emit (Access (path i)) w2;
                            installation2 = (case access_X_OK e (path i) of
                                               Some err \<Rightarrow> None | None \<Rightarrow> Some i)
                        in if token 332 then (Inl Cancelled, w3)
                           else ensureLocalApp_install e installationKey download installation2 token w3))))"

text \<open>Lines 343-346.\<close>

definition ensureLocalApp_start ::
  "app_env \<Rightarrow> string \<Rightarrow> string \<Rightarrow> LocalAppInstallation \<Rightarrow> CancellationToken \<Rightarrow> world
     \<Rightarrow> (error + LocalAppConfig) \<times> world" where
  "ensureLocalApp_start e host configKey installation token w =
     (case startLocalApp e host installation token w of
        (Inl err, w1) \<Rightarrow> (Inl err, w1)
      | (Inr config, w1) \<Rightarrow>
          (let w2 = globalState_update configKey (Some (ConfigV config)) w1
           in if token 345 then (Inl Cancelled, w2) else (Inr config, w2)))"

definition ensureLocalApp ::
  "app_env \<Rightarrow> string \<Rightarrow> string \<Rightarrow> string \<Rightarrow> CancellationToken \<Rightarrow> world
     \<Rightarrow> (error + LocalAppConfig) \<times> world" where
  "ensureLocalApp e host configKey installationKey token w =
     (let config = runningConfig e (store w) configKey;
          installation = get_installation (store w) installationKey;
          configuredPath = configuredInstallationPath e
      in case (case configuredPath of
                 None \<Rightarrow> ensureLocalApp_default e host installationKey config installation token w
               | Some p \<Rightarrow>
                   if truthy_string configuredPath
                   then ensureLocalApp_configured e p installationKey config installation token w
                   else ensureLocalApp_default e host installationKey config installation token w) of
           (Inl err, w1) \<Rightarrow> (Inl err, w1)
         | (Inr (Inl c), w1) \<Rightarrow> (Inr c, w1)
         | (Inr (Inr i), w1) \<Rightarrow> ensureLocalApp_start e host configKey i token w1)"

section \<open>The retry loop of \<open>withLocalApp\<close> (lines 357-379)\<close>

text \<open>\<open>e.code\<close>: only an error of the RPC layer carries a code.\<close>

fun error_code :: "error \<Rightarrow> grpc_code option" where
  "error_code (RpcError c) = Some c"
| "error_code _ = None"

text \<open>
  The \<open>catch\<close> block of lines 363-378 in round \<open>i\<close>, for a caught error: \<open>Inl\<close> is the
  error thrown out of \<open>withLocalApp\<close>, \<open>Inr ()\<close> is the \<open>continue\<close> of line 371.
\<close>

definition withLocalApp_catch ::
  "(int \<Rightarrow> bool) \<Rightarrow> CancellationToken option \<Rightarrow> LocalAppConfig \<Rightarrow> error \<Rightarrow> error + unit" where
  "withLocalApp_catch aliveNow token config err =
     (if throwIfCancelled token 364 then Inl Cancelled
      else
        (let running = checkRunning aliveNow (pid config)
         in if running \<and> (error_code err = Some Unavailable \<or> error_code err = Some Unknown)
            then (if throwIfCancelled token 370 then Inl Cancelled else Inr ())
            else Inl err))"

text \<open>
  The loop. In round \<open>i\<close> the operation yields \<open>op i\<close>, the liveness probe answers
  \<open>aliveAt i\<close>, and the caller's optional token is read as \<open>token i\<close>. The cancellation
  thrown at line 361 is thrown inside the \<open>try\<close> and goes through the \<open>catch\<close> block like
  any error. A loop still retrying when the fuel is used up yields \<open>None\<close>.
\<close>

fun withLocalApp_loop ::
  "nat \<Rightarrow> (nat \<Rightarrow> error + 'a) \<Rightarrow> (nat \<Rightarrow> int \<Rightarrow> bool) \<Rightarrow> (nat \<Rightarrow> CancellationToken option)
     \<Rightarrow> LocalAppConfig \<Rightarrow> nat \<Rightarrow> (error + 'a) option" where
  "withLocalApp_loop 0 op aliveAt token config i = None"
| "withLocalApp_loop (Suc fuel) op aliveAt token config i =
     (let attempt = (case op i of
                       Inr result \<Rightarrow> if throwIfCancelled (token i) 361 then Inl Cancelled else Inr result
                     | Inl err \<Rightarrow> Inl err)
      in case attempt of
           Inr result \<Rightarrow> Some (Inr result)
         | Inl err \<Rightarrow>
             (case withLocalApp_catch (aliveAt i) (token i) config err of
                Inl thrown \<Rightarrow> Some (Inl thrown)
              | Inr u \<Rightarrow> withLocalApp_loop fuel op aliveAt token config (Suc i)))"

section \<open>Traces and examples for \<open>ensureLocalApp\<close>\<close>

text \<open>The signals that \<open>kill_outdated\<close> adds to the trace.\<close>

definition kills :: "LocalAppConfig option \<Rightarrow> event list" where
  "kills config = (case config of None \<Rightarrow> [] | Some c \<Rightarrow> [Kill (pid c)])"

text \<open>
  An example: a Linux host on which every outside operation succeeds, the download
  carries the tag \<open>v2\<close>, process 77 is alive and a spawn yields process 88; and a store
  that holds a running instance (process 77) and an installation with the tag \<open>v1\<close>.
\<close>

definition exampleEnv :: app_env where
  "exampleEnv = \<lparr>proc_alive = (\<lambda>p. p = 77), configuredInstallationPath = None,
     platform = ''linux'', arch = ''x64'',
     fetch = (\<lambda>h q. Inr \<lparr>ok = True, status = 200, statusText = ''OK'', headers_etag = Some ''v2'', url = h @ q\<rparr>),
     access_X_OK = (\<lambda>q. None), tmp_file = (\<lambda>pre. Inr (''/tmp/'' @ pre)),
     pipe_body = (\<lambda>q. None), chmod = (\<lambda>q. None), listen_port = 4000,
     logPathOf = (\<lambda>q. q @ ''.log''), logStream_open = (\<lambda>q. None), spawn = (\<lambda>q. Inr 88)\<rparr>"

definition exampleWorld :: world where
  "exampleWorld = \<lparr>store = [(''config/gitpod.io'', ConfigV \<lparr>gitpodHost = ''https://gitpod.io'', configFile = ''/tmp/cfg'', apiPort = 3000, pid = 77, logPath = ''/tmp/lca.log''\<rparr>),
                        (''installation/gitpod.io'', InstallationV \<lparr>path = ''/tmp/lca'', etag = Some ''v1''\<rparr>)],
      lockCount = 0, events = []\<rparr>"


section \<open>Properties of the sweep\<close>

lemma gs_get_delete: "gs_get (gs_update key None st) k = (if k = key then None else gs_get st k)"
  by (simp add: gs_get_def gs_update_def AList.delete_conv)

lemma gs_get_update: "gs_get (gs_update key (Some v) st) k = (if k = key then Some v else gs_get st k)"
  by (simp add: gs_get_def gs_update_def AList.update_conv)







section \<open>Properties of \<open>withLock\<close>\<close>

lemma string_of_nat_0: "string_of_nat 0 = ''0''"
  by (simp add: string_of_nat.simps digit_def)

lemma withLock_loop_foreign:
  assumes "value_of (gs_get st lockKey) \<noteq> Some v" "truthy (gs_get st lockKey)"
    and "\<forall>i s. others e i s = s"
  shows "withLock_loop fuel e lockKey v timeout i st = None"
  using assms by (induction fuel arbitrary: i) (simp_all add: Let_def)

text \<open>
  Claim C2, at a failing input. Another host holds \<open>lock/gitpod.io\<close> and keeps it, and the
  caller's token has fired at every place. The call does not fail with a cancellation
  error: however many rounds it is given, it is still polling.
\<close>

theorem withLock_polls_despite_cancellation:
  "withLock fuel hostA ''gitpod.io'' op 300000 (Some (\<lambda>site. True))
     \<lparr>store = [(''lock/gitpod.io'',
                 LockV \<lparr>lock_pid = Some 22, lock_value = ''B/0'', lock_deadline = 999999\<rparr>)],
      lockCount = 0, events = []\<rparr> = None"
  by (simp add: withLock_def Let_def lockPrefix_def withLock_loop_foreign gs_get_def hostA_def
      string_of_nat_0)

text \<open>
  Claim C3, as amended. A tick of the holder's timer reads the record and writes nothing:
  the store after the tick is the store before it, so the deadline written at
  acquisition is never moved. The tick cancels the token source exactly when the source
  was cancelled already or the stored token is not the holder's.
\<close>

theorem withLock_timer_reads_only:
  "fst (withLock_timer lockKey v st cancelled) = st
   \<and> snd (withLock_timer lockKey v st cancelled)
       = (cancelled \<or> value_of (gs_get st lockKey) \<noteq> Some v)"
  by (simp add: withLock_timer_def Let_def)

text \<open>
  Claim C3 as stated fails: after a tick the holder's record carries the deadline it had
  before, and a sweep at that deadline removes the record of a holder that is alive.
\<close>

theorem withLock_timer_refresh_counterexample:
  "gs_get (fst (withLock_timer ''lock/gitpod.io'' ''A/0''
        [(''lock/gitpod.io'',
          LockV \<lparr>lock_pid = Some 11, lock_value = ''A/0'', lock_deadline = 301300\<rparr>)] False))
      ''lock/gitpod.io''
     = Some (LockV \<lparr>lock_pid = Some 11, lock_value = ''A/0'', lock_deadline = 301300\<rparr>)
   \<and> gs_get (releaseLocks 301300 (\<lambda>p. True)
        (fst (withLock_timer ''lock/gitpod.io'' ''A/0''
          [(''lock/gitpod.io'',
            LockV \<lparr>lock_pid = Some 11, lock_value = ''A/0'', lock_deadline = 301300\<rparr>)] False)))
      ''lock/gitpod.io''
     = None"
  by (simp add: withLock_timer_def Let_def gs_get_def releaseLocks_def gs_keys_def
      releaseLocks_key_def lockPrefix_def staleCondition_def gs_update_def)

lemma withLock_release_get: "gs_get (withLock_release lockKey st) lockKey = None"
  by (simp add: withLock_release_def gs_get_delete)

text \<open>
  Claim C9. Whatever the guarded operation does (it returns, \<open>Inr\<close>, or throws, \<open>Inl\<close>,
  a cancellation being one of the errors) and whatever it leaves in the store, the key
  is absent afterwards and the outcome of the operation is passed on unchanged. The
  release does not look at the record it removes, and releasing twice is releasing
  once. So every call of \<open>withLock\<close> that comes back leaves the key absent.
\<close>

theorem withLock_releases_on_every_exit:
  "gs_get (store (snd (withLock_guarded lockKey op tok w))) lockKey = None
   \<and> fst (withLock_guarded lockKey op tok w) = fst (op tok w)
   \<and> gs_get (withLock_release lockKey st) lockKey = None
   \<and> withLock_release lockKey (withLock_release lockKey st) = withLock_release lockKey st
   \<and> (withLock fuel e lockName op timeout token w = Some (r, w') \<longrightarrow>
        gs_get (store w') (lockPrefix @ lockName) = None)"
proof (intro conjI impI)
  show "gs_get (store (snd (withLock_guarded lockKey op tok w))) lockKey = None"
    by (simp add: withLock_guarded_def withLock_release_get split: prod.splits)
  show "fst (withLock_guarded lockKey op tok w) = fst (op tok w)"
    by (simp add: withLock_guarded_def split: prod.splits)
  show "gs_get (withLock_release lockKey st) lockKey = None"
    by (rule withLock_release_get)
  show "withLock_release lockKey (withLock_release lockKey st) = withLock_release lockKey st"
    by (simp add: withLock_release_def gs_update_def AList.delete_idem)
next
  assume "withLock fuel e lockName op timeout token w = Some (r, w')"
  then show "gs_get (store w') (lockPrefix @ lockName) = None"
    by (auto simp: withLock_def Let_def withLock_guarded_def withLock_release_get
        split: option.splits prod.splits)
qed

text \<open>
  A run of the theorem: the store is empty, the lock is acquired in the first round, and
  the operation overwrites the record with another host's token and then throws. The
  key is absent afterwards.
\<close>

theorem withLock_releases_on_every_exit_witness:
  "withLock (Suc 0) hostA ''gitpod.io''
      (\<lambda>tok w. (Inl (Thrown ''failed'') :: error + nat,
         w\<lparr>store := gs_update ''lock/gitpod.io''
            (Some (LockV \<lparr>lock_pid = Some 22, lock_value = ''B/0'', lock_deadline = 5\<rparr>)) (store w)\<rparr>))
      300000 None \<lparr>store = [], lockCount = 0, events = []\<rparr>
     = Some (Inl (Thrown ''failed''), \<lparr>store = [], lockCount = 1, events = []\<rparr>)
   \<and> gs_get (store \<lparr>store = [], lockCount = 1, events = []\<rparr>) (lockPrefix @ ''gitpod.io'') = None"
proof -
  let ?op = "\<lambda>(tok :: CancellationToken) w. (Inl (Thrown ''failed'') :: error + nat,
         w\<lparr>store := gs_update ''lock/gitpod.io''
            (Some (LockV \<lparr>lock_pid = Some 22, lock_value = ''B/0'', lock_deadline = 5\<rparr>)) (store w)\<rparr>)"
  let ?w' = "\<lparr>store = [], lockCount = 1, events = []\<rparr>"
  have run: "withLock (Suc 0) hostA ''gitpod.io'' ?op 300000 None
      \<lparr>store = [], lockCount = 0, events = []\<rparr> = Some (Inl (Thrown ''failed''), ?w')"
    by (simp add: withLock_def Let_def lockPrefix_def hostA_def string_of_nat_0 gs_get_def
        gs_update_def withLock_guarded_def withLock_release_def updateTimeout_def)
  show ?thesis
    using run withLock_releases_on_every_exit [of "lockPrefix @ ''gitpod.io''" ?op "\<lambda>n. False"
        "\<lparr>store = [], lockCount = 0, events = []\<rparr>" "[]" "Suc 0" hostA "''gitpod.io''"
        300000 None "Inl (Thrown ''failed'')" ?w']
    by simp
qed

section \<open>Mutual exclusion of concurrent calls\<close>

lemma value_of_truthy: "value_of x = Some u \<Longrightarrow> truthy x"
  by (cases x rule: value_of.cases) simp_all

lemma lock_invI:
  assumes "\<And>u. sh_pc s u = Holding \<Longrightarrow> value_of (gs_get (sh_store s) lockKey) = Some u"
    and "\<And>u x. sh_pc s u = AtWrite \<Longrightarrow> sh_pc s x \<noteq> Holding"
    and "\<And>u. u \<notin> set calls \<Longrightarrow> sh_pc s u = AtRead"
  shows "lock_inv calls lockKey s"
  using assms unfolding lock_inv_def by blast

lemma lock_invD:
  assumes "lock_inv calls lockKey s"
  shows "sh_pc s u = Holding \<Longrightarrow> value_of (gs_get (sh_store s) lockKey) = Some u"
    and "sh_pc s u = AtWrite \<Longrightarrow> sh_pc s x \<noteq> Holding"
    and "u \<notin> set calls \<Longrightarrow> sh_pc s u = AtRead"
  using assms unfolding lock_inv_def by blast+

lemma attempt_step_AtRead:
  "sh_pc s v = AtRead \<Longrightarrow> attempt_step pidOf deadlineOf lockKey v s =
     s\<lparr>sh_pc := (sh_pc s)(v := if \<not> truthy (gs_get (sh_store s) lockKey) then AtWrite else AtVerify)\<rparr>"
  by (simp add: attempt_step_def)

lemma attempt_step_AtWrite:
  "sh_pc s v = AtWrite \<Longrightarrow> attempt_step pidOf deadlineOf lockKey v s =
     s\<lparr>sh_store := gs_update lockKey
                          (Some (LockV \<lparr>lock_pid = Some (pidOf v), lock_value = v,
                                         lock_deadline = deadlineOf v\<rparr>)) (sh_store s),
            sh_pc := (sh_pc s)(v := AtVerify)\<rparr>"
  by (simp add: attempt_step_def)

lemma attempt_step_AtVerify:
  "sh_pc s v = AtVerify \<Longrightarrow> attempt_step pidOf deadlineOf lockKey v s =
     s\<lparr>sh_pc := (sh_pc s)(v := if value_of (gs_get (sh_store s) lockKey) \<noteq> Some v
                                      then AtRead else Holding)\<rparr>"
  by (simp add: attempt_step_def)

lemma attempt_step_Holding:
  "sh_pc s v = Holding \<Longrightarrow> attempt_step pidOf deadlineOf lockKey v s =
     s\<lparr>sh_store := withLock_release lockKey (sh_store s),
            sh_pc := (sh_pc s)(v := Released)\<rparr>"
  by (simp add: attempt_step_def)

lemma attempt_step_Released:
  "sh_pc s v = Released \<Longrightarrow> attempt_step pidOf deadlineOf lockKey v s = s"
  by (simp add: attempt_step_def)

lemma lock_inv_step:
  assumes inv: "lock_inv calls lockKey s" and v: "v \<in> set calls"
    and ng: "sh_pc s v \<noteq> AtVerify \<or> value_of (gs_get (sh_store s) lockKey) \<noteq> Some v
         \<or> list_all (\<lambda>u. sh_pc s u \<noteq> AtWrite) calls"
  shows "lock_inv calls lockKey (attempt_step pidOf deadlineOf lockKey v s)"
proof -
  note I = lock_invD [OF inv]
  show ?thesis
  proof (cases "sh_pc s v")
    case AtRead
    let ?pc = "(sh_pc s)(v := if \<not> truthy (gs_get (sh_store s) lockKey) then AtWrite else AtVerify)"
    have hold: "sh_pc s u = Holding" if "?pc u = Holding" for u
      using that by (simp split: if_splits)
    show ?thesis
      unfolding attempt_step_AtRead [OF AtRead]
    proof (rule lock_invI)
      fix u
      assume "sh_pc (s\<lparr>sh_pc := ?pc\<rparr>) u = Holding"
      then have "sh_pc s u = Holding" using hold by simp
      then show "value_of (gs_get (sh_store (s\<lparr>sh_pc := ?pc\<rparr>)) lockKey) = Some u"
        using I(1) by simp
    next
      fix u x
      assume a: "sh_pc (s\<lparr>sh_pc := ?pc\<rparr>) u = AtWrite"
      show "sh_pc (s\<lparr>sh_pc := ?pc\<rparr>) x \<noteq> Holding"
      proof
        assume "sh_pc (s\<lparr>sh_pc := ?pc\<rparr>) x = Holding"
        then have hx: "sh_pc s x = Holding" using hold by simp
        then have stored: "truthy (gs_get (sh_store s) lockKey)"
          using I(1) value_of_truthy by blast
        show False
        proof (cases "u = v")
          case True
          then show False using a stored by (simp split: if_splits)
        next
          case False
          then have "sh_pc s u = AtWrite" using a by simp
          then show False using I(2) hx by blast
        qed
      qed
    next
      fix u
      assume "u \<notin> set calls"
      then show "sh_pc (s\<lparr>sh_pc := ?pc\<rparr>) u = AtRead"
        using v I(3) [of u] by auto
    qed
  next
    case AtWrite
    let ?s' = "s\<lparr>sh_store := gs_update lockKey
                          (Some (LockV \<lparr>lock_pid = Some (pidOf v), lock_value = v,
                                         lock_deadline = deadlineOf v\<rparr>)) (sh_store s),
            sh_pc := (sh_pc s)(v := AtVerify)\<rparr>"
    have nohold: "sh_pc s x \<noteq> Holding" for x using I(2) [OF AtWrite] .
    have nohold': "sh_pc ?s' x \<noteq> Holding" for x using nohold [of x] by simp
    show ?thesis
      unfolding attempt_step_AtWrite [OF AtWrite]
    proof (rule lock_invI)
      fix u
      assume "sh_pc ?s' u = Holding"
      then show "value_of (gs_get (sh_store ?s') lockKey) = Some u"
        using nohold' by blast
    next
      fix u x
      show "sh_pc ?s' x \<noteq> Holding" by (rule nohold')
    next
      fix u
      assume "u \<notin> set calls"
      then show "sh_pc ?s' u = AtRead"
        using v I(3) [of u] by auto
    qed
  next
    case AtVerify
    let ?pc = "(sh_pc s)(v := if value_of (gs_get (sh_store s) lockKey) \<noteq> Some v
                              then AtRead else Holding)"
    have wr: "sh_pc s u = AtWrite" if "?pc u = AtWrite" for u
      using that by (simp split: if_splits)
    show ?thesis
      unfolding attempt_step_AtVerify [OF AtVerify]
    proof (rule lock_invI)
      fix u
      assume a: "sh_pc (s\<lparr>sh_pc := ?pc\<rparr>) u = Holding"
      have "value_of (gs_get (sh_store s) lockKey) = Some u"
      proof (cases "u = v")
        case True
        then show ?thesis using a by (simp split: if_splits)
      next
        case False
        then show ?thesis using a I(1) [of u] by simp
      qed
      then show "value_of (gs_get (sh_store (s\<lparr>sh_pc := ?pc\<rparr>)) lockKey) = Some u"
        by simp
    next
      fix u x
      assume "sh_pc (s\<lparr>sh_pc := ?pc\<rparr>) u = AtWrite"
      then have u: "sh_pc s u = AtWrite" using wr by simp
      show "sh_pc (s\<lparr>sh_pc := ?pc\<rparr>) x \<noteq> Holding"
      proof
        assume h: "sh_pc (s\<lparr>sh_pc := ?pc\<rparr>) x = Holding"
        show False
        proof (cases "x = v")
          case True
          then have granted: "value_of (gs_get (sh_store s) lockKey) = Some v"
            using h by (simp split: if_splits)
          then have quiet: "list_all (\<lambda>u. sh_pc s u \<noteq> AtWrite) calls"
            using ng AtVerify by simp
          show False
          proof (cases "u \<in> set calls")
            case True
            then show False using quiet u by (simp add: list_all_iff)
          next
            case False
            then show False using I(3) [of u] u by simp
          qed
        next
          case False
          then have "sh_pc s x = Holding" using h by simp
          then show False using I(2) [OF u] by blast
        qed
      qed
    next
      fix u
      assume "u \<notin> set calls"
      then show "sh_pc (s\<lparr>sh_pc := ?pc\<rparr>) u = AtRead"
        using v I(3) [of u] by auto
    qed
  next
    case Holding
    let ?s' = "s\<lparr>sh_store := withLock_release lockKey (sh_store s),
            sh_pc := (sh_pc s)(v := Released)\<rparr>"
    have mine: "value_of (gs_get (sh_store s) lockKey) = Some v" using I(1) [OF Holding] .
    have nohold': "sh_pc ?s' x \<noteq> Holding" for x
    proof
      assume "sh_pc ?s' x = Holding"
      then have "x \<noteq> v" "sh_pc s x = Holding" by (simp_all split: if_splits)
      then show False using I(1) [of x] mine by simp
    qed
    show ?thesis
      unfolding attempt_step_Holding [OF Holding]
    proof (rule lock_invI)
      fix u
      assume "sh_pc ?s' u = Holding"
      then show "value_of (gs_get (sh_store ?s') lockKey) = Some u"
        using nohold' by blast
    next
      fix u x
      show "sh_pc ?s' x \<noteq> Holding" by (rule nohold')
    next
      fix u
      assume "u \<notin> set calls"
      then show "sh_pc ?s' u = AtRead"
        using v I(3) [of u] by auto
    qed
  next
    case Released
    show ?thesis
      unfolding attempt_step_Released [OF Released] by (rule inv)
  qed
qed

lemma lock_inv_run:
  "lock_inv calls lockKey s \<Longrightarrow> set sched \<subseteq> set calls \<Longrightarrow>
   no_grant_while_write_pending calls pidOf deadlineOf lockKey sched s \<Longrightarrow>
   lock_inv calls lockKey (run_schedule pidOf deadlineOf lockKey sched s)"
proof (induction sched arbitrary: s)
  case Nil
  then show ?case by simp
next
  case (Cons v sched)
  have "lock_inv calls lockKey (attempt_step pidOf deadlineOf lockKey v s)"
    using Cons.prems by (intro lock_inv_step) simp_all
  then show ?case
    using Cons.IH Cons.prems by simp
qed

lemma lock_inv_initial: "lock_inv calls lockKey (initial st)"
  by (simp add: lock_inv_def initial_def)

lemma holder_invI:
  assumes "\<And>u. sh_pc s u = Holding \<Longrightarrow> value_of (gs_get (sh_store s) lockKey) = Some u"
    and "\<And>u. u \<notin> set calls \<Longrightarrow> sh_pc s u = AtRead"
  shows "holder_inv calls lockKey s"
  using assms unfolding holder_inv_def by blast

lemma holder_invD:
  assumes "holder_inv calls lockKey s"
  shows "sh_pc s u = Holding \<Longrightarrow> value_of (gs_get (sh_store s) lockKey) = Some u"
    and "u \<notin> set calls \<Longrightarrow> sh_pc s u = AtRead"
  using assms unfolding holder_inv_def by blast+

lemma holder_inv_step:
  assumes inv: "holder_inv calls lockKey s" and v: "v \<in> set calls"
    and nw: "sh_pc s v \<noteq> AtWrite \<or> list_all (\<lambda>u. sh_pc s u \<noteq> Holding) calls"
  shows "holder_inv calls lockKey (attempt_step pidOf deadlineOf lockKey v s)"
proof -
  note I = holder_invD [OF inv]
  show ?thesis
  proof (cases "sh_pc s v")
    case AtRead
    let ?pc = "(sh_pc s)(v := if \<not> truthy (gs_get (sh_store s) lockKey) then AtWrite else AtVerify)"
    show ?thesis
      unfolding attempt_step_AtRead [OF AtRead]
    proof (rule holder_invI)
      fix u
      assume "sh_pc (s\<lparr>sh_pc := ?pc\<rparr>) u = Holding"
      then have "sh_pc s u = Holding" by (simp split: if_splits)
      then show "value_of (gs_get (sh_store (s\<lparr>sh_pc := ?pc\<rparr>)) lockKey) = Some u"
        using I(1) by simp
    next
      fix u
      assume "u \<notin> set calls"
      then show "sh_pc (s\<lparr>sh_pc := ?pc\<rparr>) u = AtRead"
        using v I(2) [of u] by auto
    qed
  next
    case AtWrite
    let ?s' = "s\<lparr>sh_store := gs_update lockKey
                          (Some (LockV \<lparr>lock_pid = Some (pidOf v), lock_value = v,
                                         lock_deadline = deadlineOf v\<rparr>)) (sh_store s),
            sh_pc := (sh_pc s)(v := AtVerify)\<rparr>"
    have free: "list_all (\<lambda>u. sh_pc s u \<noteq> Holding) calls" using nw AtWrite by simp
    have nohold: "sh_pc s x \<noteq> Holding" for x
    proof (cases "x \<in> set calls")
      case True
      then show ?thesis using free by (simp add: list_all_iff)
    next
      case False
      then show ?thesis using I(2) [of x] by simp
    qed
    have nohold': "sh_pc ?s' x \<noteq> Holding" for x using nohold [of x] by simp
    show ?thesis
      unfolding attempt_step_AtWrite [OF AtWrite]
    proof (rule holder_invI)
      fix u
      assume "sh_pc ?s' u = Holding"
      then show "value_of (gs_get (sh_store ?s') lockKey) = Some u"
        using nohold' by blast
    next
      fix u
      assume "u \<notin> set calls"
      then show "sh_pc ?s' u = AtRead"
        using v I(2) [of u] by auto
    qed
  next
    case AtVerify
    let ?pc = "(sh_pc s)(v := if value_of (gs_get (sh_store s) lockKey) \<noteq> Some v
                              then AtRead else Holding)"
    show ?thesis
      unfolding attempt_step_AtVerify [OF AtVerify]
    proof (rule holder_invI)
      fix u
      assume a: "sh_pc (s\<lparr>sh_pc := ?pc\<rparr>) u = Holding"
      have "value_of (gs_get (sh_store s) lockKey) = Some u"
      proof (cases "u = v")
        case True
        then show ?thesis using a by (simp split: if_splits)
      next
        case False
        then show ?thesis using a I(1) [of u] by simp
      qed
      then show "value_of (gs_get (sh_store (s\<lparr>sh_pc := ?pc\<rparr>)) lockKey) = Some u"
        by simp
    next
      fix u
      assume "u \<notin> set calls"
      then show "sh_pc (s\<lparr>sh_pc := ?pc\<rparr>) u = AtRead"
        using v I(2) [of u] by auto
    qed
  next
    case Holding
    let ?s' = "s\<lparr>sh_store := withLock_release lockKey (sh_store s),
            sh_pc := (sh_pc s)(v := Released)\<rparr>"
    have mine: "value_of (gs_get (sh_store s) lockKey) = Some v" using I(1) [OF Holding] .
    have nohold': "sh_pc ?s' x \<noteq> Holding" for x
    proof
      assume "sh_pc ?s' x = Holding"
      then have "x \<noteq> v" "sh_pc s x = Holding" by (simp_all split: if_splits)
      then show False using I(1) [of x] mine by simp
    qed
    show ?thesis
      unfolding attempt_step_Holding [OF Holding]
    proof (rule holder_invI)
      fix u
      assume "sh_pc ?s' u = Holding"
      then show "value_of (gs_get (sh_store ?s') lockKey) = Some u"
        using nohold' by blast
    next
      fix u
      assume "u \<notin> set calls"
      then show "sh_pc ?s' u = AtRead"
        using v I(2) [of u] by auto
    qed
  next
    case Released
    show ?thesis
      unfolding attempt_step_Released [OF Released] by (rule inv)
  qed
qed

lemma holder_inv_run:
  "holder_inv calls lockKey s \<Longrightarrow> set sched \<subseteq> set calls \<Longrightarrow>
   no_write_while_held calls pidOf deadlineOf lockKey sched s \<Longrightarrow>
   holder_inv calls lockKey (run_schedule pidOf deadlineOf lockKey sched s)"
proof (induction sched arbitrary: s)
  case Nil
  then show ?case by simp
next
  case (Cons v sched)
  have "holder_inv calls lockKey (attempt_step pidOf deadlineOf lockKey v s)"
    using Cons.prems by (intro holder_inv_step) simp_all
  then show ?case
    using Cons.IH Cons.prems by simp
qed

lemma holder_inv_initial: "holder_inv calls lockKey (initial st)"
  by (simp add: holder_inv_def initial_def)

lemma holder_inv_holders:
  assumes "holder_inv calls lockKey s" "sh_pc s u = Holding" "sh_pc s v = Holding"
  shows "u = v"
proof -
  have "value_of (gs_get (sh_store s) lockKey) = Some u" using holder_invD(1) [OF assms(1,2)] .
  moreover have "value_of (gs_get (sh_store s) lockKey) = Some v" using holder_invD(1) [OF assms(1,3)] .
  ultimately show ?thesis by simp
qed

text \<open>
  A schedule that grants no lock while a write is pending lets no write land on a held
  lock: the condition of the theorem below is the weaker one.
\<close>

lemma no_grant_while_write_pending_no_write_while_held:
  "lock_inv calls lockKey s \<Longrightarrow> set sched \<subseteq> set calls \<Longrightarrow>
   no_grant_while_write_pending calls pidOf deadlineOf lockKey sched s \<Longrightarrow>
   no_write_while_held calls pidOf deadlineOf lockKey sched s"
proof (induction sched arbitrary: s)
  case Nil
  then show ?case by simp
next
  case (Cons v sched)
  have step: "lock_inv calls lockKey (attempt_step pidOf deadlineOf lockKey v s)"
    using Cons.prems by (intro lock_inv_step) simp_all
  have here: "sh_pc s v \<noteq> AtWrite \<or> list_all (\<lambda>u. sh_pc s u \<noteq> Holding) calls"
  proof (cases "sh_pc s v = AtWrite")
    case True
    then have "sh_pc s x \<noteq> Holding" for x using lock_invD(2) [OF Cons.prems(1)] by blast
    then show ?thesis by (simp add: list_all_iff)
  next
    case False
    then show ?thesis by simp
  qed
  show ?case
    using here Cons.IH [OF step] Cons.prems by simp
qed

lemma filter_at_most_one:
  "distinct xs \<Longrightarrow> (\<And>x y. P x \<Longrightarrow> P y \<Longrightarrow> x = y) \<Longrightarrow> length (filter P xs) \<le> 1"
proof (induction xs)
  case Nil
  then show ?case by simp
next
  case (Cons a xs)
  show ?case
  proof (cases "P a")
    case True
    have "filter P xs = []"
    proof (rule ccontr)
      assume "filter P xs \<noteq> []"
      then obtain b where b: "b \<in> set xs" "P b"
        by (metis filter_False)
      then have "a = b" using True Cons.prems(2) by blast
      then show False using b(1) Cons.prems(1) by simp
    qed
    then show ?thesis using True by simp
  next
    case False
    then show ?thesis using Cons by simp
  qed
qed

text \<open>
  Claim C1 as stated fails. Two calls \<open>A/0\<close> and \<open>B/0\<close> start on an empty store. Both read
  the key and find no record; \<open>A/0\<close> writes, waits and reads its own token back, so it is
  granted; then \<open>B/0\<close> writes, waits and reads its own token back, so it is granted too.
  Neither has released: both hold the lock at once.
\<close>

theorem withLock_two_holders_counterexample:
  "sh_pc (run_schedule (\<lambda>v. 11) (\<lambda>v. 301300) ''lock/gitpod.io''
      [''A/0'', ''B/0'', ''A/0'', ''A/0'', ''B/0'', ''B/0''] (initial [])) ''A/0'' = Holding
   \<and> sh_pc (run_schedule (\<lambda>v. 11) (\<lambda>v. 301300) ''lock/gitpod.io''
      [''A/0'', ''B/0'', ''A/0'', ''A/0'', ''B/0'', ''B/0''] (initial [])) ''B/0'' = Holding"
  by (simp add: attempt_step_def initial_def gs_get_def gs_update_def)

text \<open>
  Claim C1, as amended. Let the calls have pairwise different tokens, and let no write
  land while a call holds the lock. Then, after any such schedule of reads, writes,
  re-reads and releases, at most one call holds the lock, and any two holders are the
  same call. Calls that read the key as absent together and then write one after the
  other are within the condition: the re-read grants the last writer alone. The
  counterexample above is outside it: there the write of \<open>B/0\<close> lands while \<open>A/0\<close> holds.
\<close>

theorem withLock_mutual_exclusion:
  "set sched \<subseteq> set calls \<and> distinct calls
   \<and> no_write_while_held calls pidOf deadlineOf lockKey sched (initial st)
   \<longrightarrow>
     length (filter (\<lambda>u. sh_pc (run_schedule pidOf deadlineOf lockKey sched (initial st)) u = Holding)
               calls) \<le> 1
     \<and> (\<forall>u v. sh_pc (run_schedule pidOf deadlineOf lockKey sched (initial st)) u = Holding
              \<and> sh_pc (run_schedule pidOf deadlineOf lockKey sched (initial st)) v = Holding
              \<longrightarrow> u = v)"
proof (intro impI)
  assume a: "set sched \<subseteq> set calls \<and> distinct calls
   \<and> no_write_while_held calls pidOf deadlineOf lockKey sched (initial st)"
  let ?s = "run_schedule pidOf deadlineOf lockKey sched (initial st)"
  have inv: "holder_inv calls lockKey ?s"
    using a by (intro holder_inv_run holder_inv_initial) simp_all
  have one: "length (filter (\<lambda>u. sh_pc ?s u = Holding) calls) \<le> 1"
    using a by (intro filter_at_most_one) (simp, rule holder_inv_holders [OF inv])
  have same: "\<forall>u v. sh_pc ?s u = Holding \<and> sh_pc ?s v = Holding \<longrightarrow> u = v"
    using holder_inv_holders [OF inv] by blast
  show "length (filter (\<lambda>u. sh_pc ?s u = Holding) calls) \<le> 1
     \<and> (\<forall>u v. sh_pc ?s u = Holding \<and> sh_pc ?s v = Holding \<longrightarrow> u = v)"
    using one same by (rule conjI)
qed

text \<open>
  A run of the theorem with two writers: \<open>A/0\<close> and \<open>B/0\<close> both read the key as absent,
  \<open>A/0\<close> writes, \<open>B/0\<close> writes over it, \<open>A/0\<close> re-reads, finds the other token and goes
  back to polling, \<open>B/0\<close> re-reads its own token and is granted. At the end \<open>B/0\<close> alone
  holds the lock and \<open>A/0\<close> is polling.
\<close>

theorem withLock_mutual_exclusion_witness:
  "set [''A/0'', ''B/0'', ''A/0'', ''B/0'', ''A/0'', ''B/0''] \<subseteq> set [''A/0'', ''B/0'']
   \<and> distinct [''A/0'', ''B/0'']
   \<and> no_write_while_held [''A/0'', ''B/0''] (\<lambda>v. 11) (\<lambda>v. 301300) ''lock/gitpod.io''
        [''A/0'', ''B/0'', ''A/0'', ''B/0'', ''A/0'', ''B/0''] (initial [])
   \<and> sh_pc (run_schedule (\<lambda>v. 11) (\<lambda>v. 301300) ''lock/gitpod.io'' [''A/0'', ''B/0'', ''A/0'', ''B/0'', ''A/0'', ''B/0''] (initial []))
        ''A/0'' = AtRead
   \<and> sh_pc (run_schedule (\<lambda>v. 11) (\<lambda>v. 301300) ''lock/gitpod.io'' [''A/0'', ''B/0'', ''A/0'', ''B/0'', ''A/0'', ''B/0''] (initial []))
        ''B/0'' = Holding
   \<and> length (filter (\<lambda>u. sh_pc (run_schedule (\<lambda>v. 11) (\<lambda>v. 301300) ''lock/gitpod.io''
        [''A/0'', ''B/0'', ''A/0'', ''B/0'', ''A/0'', ''B/0''] (initial [])) u = Holding) [''A/0'', ''B/0'']) \<le> 1"
proof -
  let ?sched = "[''A/0'', ''B/0'', ''A/0'', ''B/0'', ''A/0'', ''B/0'']"
  have sub: "set ?sched \<subseteq> set [''A/0'', ''B/0'']" by simp
  have dist: "distinct [''A/0'', ''B/0'']" by simp
  have quiet: "no_write_while_held [''A/0'', ''B/0''] (\<lambda>v. 11) (\<lambda>v. 301300)
      ''lock/gitpod.io'' ?sched (initial [])"
    by (simp add: attempt_step_def initial_def gs_get_def gs_update_def withLock_release_def)
  have polling: "sh_pc (run_schedule (\<lambda>v. 11) (\<lambda>v. 301300) ''lock/gitpod.io'' ?sched (initial []))
      ''A/0'' = AtRead"
    by (simp add: attempt_step_def initial_def gs_get_def gs_update_def withLock_release_def)
  have holder: "sh_pc (run_schedule (\<lambda>v. 11) (\<lambda>v. 301300) ''lock/gitpod.io'' ?sched (initial []))
      ''B/0'' = Holding"
    by (simp add: attempt_step_def initial_def gs_get_def gs_update_def withLock_release_def)
  show ?thesis
    using sub dist quiet polling holder
      withLock_mutual_exclusion [of ?sched "[''A/0'', ''B/0'']" "\<lambda>v. 11" "\<lambda>v. 301300"
        "''lock/gitpod.io''" "[]"]
    by blast
qed

section \<open>Properties of \<open>ensureLocalApp\<close>\<close>

lemma emit_simps [simp]: "store (emit ev w) = store w" "events (emit ev w) = events w @ [ev]"
  "lockCount (emit ev w) = lockCount w"
  by (simp_all add: emit_def)

lemma globalState_update_simps [simp]:
  "store (globalState_update key v w) = gs_update key v (store w)"
  "events (globalState_update key v w) = events w @ [Updated key]"
  by (simp_all add: globalState_update_def)

lemma kill_outdated_simps [simp]:
  "store (kill_outdated config w) = store w"
  "events (kill_outdated config w) = events w @ kills config"
  by (simp_all add: kill_outdated_def kills_def split: option.splits)

lemma runningConfig_live:
  "gs_get st ck = Some (ConfigV c) \<Longrightarrow> proc_alive e (pid c) \<Longrightarrow> runningConfig e st ck = Some c"
  by (simp add: runningConfig_def get_config_def checkRunning_def)

lemma runningConfig_dead:
  "\<forall>c. gs_get st ck = Some (ConfigV c) \<longrightarrow> \<not> proc_alive e (pid c) \<Longrightarrow> runningConfig e st ck = None"
  by (auto simp: runningConfig_def get_config_def checkRunning_def split: option.splits stored.splits)

lemma startLocalApp_store: "store (snd (startLocalApp e host i token w)) = store w"
  by (simp add: startLocalApp_def Let_def split: sum.splits option.splits)

lemma startLocalApp_events:
  "\<exists>evs. events (snd (startLocalApp e host i token w)) = events w @ evs
     \<and> set evs \<subseteq> {TmpFile ''gitpod_ssh_config'', Spawn (path i)}"
  by (simp add: startLocalApp_def Let_def split: sum.splits option.splits)

lemma startLocalApp_Inr:
  "fst (startLocalApp e host i token w) = Inr c \<Longrightarrow>
     spawn e (path i) = Inr (pid c) \<and> Spawn (path i) \<in> set (events (snd (startLocalApp e host i token w)))"
  by (auto simp add: startLocalApp_def Let_def split: sum.splits option.splits if_splits)

lemma ensureLocalApp_start_events:
  "\<exists>evs. events (snd (ensureLocalApp_start e host ck i token w)) = events w @ evs
     \<and> set evs \<subseteq> {TmpFile ''gitpod_ssh_config'', Spawn (path i), Updated ck}"
proof -
  obtain evs where evs: "events (snd (startLocalApp e host i token w)) = events w @ evs"
     "set evs \<subseteq> {TmpFile ''gitpod_ssh_config'', Spawn (path i)}"
    using startLocalApp_events by blast
  show ?thesis
    using evs by (cases "startLocalApp e host i token w")
      (auto simp: ensureLocalApp_start_def Let_def split: sum.splits)
qed

lemma ensureLocalApp_start_store:
  "store (snd (ensureLocalApp_start e host ck i token w)) =
     (case fst (startLocalApp e host i token w) of
        Inl err \<Rightarrow> store w
      | Inr c \<Rightarrow> gs_update ck (Some (ConfigV c)) (store w))"
  using startLocalApp_store [of e host i token w]
  by (cases "startLocalApp e host i token w")
     (auto simp: ensureLocalApp_start_def Let_def split: sum.splits)

lemma ensureLocalApp_start_Inr:
  "fst (ensureLocalApp_start e host ck i token w) = Inr c \<Longrightarrow>
     fst (startLocalApp e host i token w) = Inr c
     \<and> store (snd (ensureLocalApp_start e host ck i token w)) = gs_update ck (Some (ConfigV c)) (store w)"
  using startLocalApp_store [of e host i token w]
  by (cases "startLocalApp e host i token w")
     (auto simp: ensureLocalApp_start_def Let_def split: sum.splits if_splits)

lemma get_installation_update_other:
  "ck \<noteq> ik \<Longrightarrow> get_installation (gs_update ck v st) ik = get_installation st ik"
  by (cases v) (simp_all add: get_installation_def gs_get_update gs_get_delete)

lemma get_installation_update_same:
  "get_installation (gs_update ik (Some (InstallationV i)) st) ik = Some i"
  by (simp add: get_installation_def gs_get_update)

lemma get_config_update_same:
  "get_config (gs_update ck (Some (ConfigV c)) st) ck = Some c"
  by (simp add: get_config_def gs_get_update)

text \<open>The call when the configured path differs from the installed one, step by step.\<close>

lemma ensureLocalApp_switch:
  assumes "configuredInstallationPath e = Some p" "p \<noteq> []"
    and "get_installation (store w) ik = Some i" "path i \<noteq> p"
  shows "ensureLocalApp e host ck ik token w =
     (let w2 = emit (Access p) (kill_outdated (runningConfig e (store w) ck) w)
      in case access_X_OK e p of
           Some err \<Rightarrow> (Inl err, w2)
         | None \<Rightarrow>
             if token 293 then (Inl Cancelled, w2)
             else
               (let w3 = globalState_update ik (Some (InstallationV \<lparr>path = p, etag = None\<rparr>)) w2
                in if token 296 then (Inl Cancelled, w3)
                   else ensureLocalApp_start e host ck \<lparr>path = p, etag = None\<rparr> token w3))"
  using assms
  by (simp add: ensureLocalApp_def ensureLocalApp_configured_def truthy_string_def Let_def
      split: option.splits)


lemma switch_events:
  assumes "configuredInstallationPath e = Some p" "p \<noteq> []"
    and "get_installation (store w) ik = Some i" "path i \<noteq> p"
  shows "\<exists>rest. events (snd (ensureLocalApp e host ck ik token w))
             = events w @ kills (runningConfig e (store w) ck) @ Access p # rest
           \<and> (\<forall>h q. Fetch h q \<notin> set rest) \<and> (\<forall>q. Kill q \<notin> set rest)
           \<and> (rest = [] \<or> (\<exists>rest'. rest = Updated ik # rest'))"
proof -
  let ?inst = "\<lparr>path = p, etag = None\<rparr>"
  let ?w3 = "globalState_update ik (Some (InstallationV ?inst))
               (emit (Access p) (kill_outdated (runningConfig e (store w) ck) w))"
  obtain evs where evs: "events (snd (ensureLocalApp_start e host ck ?inst token ?w3)) = events ?w3 @ evs"
      "set evs \<subseteq> {TmpFile ''gitpod_ssh_config'', Spawn (path ?inst), Updated ck}"
    using ensureLocalApp_start_events by blast
  have nofetch: "\<forall>h q. Fetch h q \<notin> set evs" using evs(2) by auto
  have nokill: "\<forall>q. Kill q \<notin> set evs" using evs(2) by auto
  show ?thesis
    unfolding ensureLocalApp_switch [OF assms]
    using evs(1) nofetch nokill by (auto simp: Let_def split: option.splits)
qed

lemma switch_unchanged:
  assumes "configuredInstallationPath e = Some p" "p \<noteq> []"
    and "get_installation (store w) ik = Some i" "path i \<noteq> p"
    and "\<not> (access_X_OK e p = None \<and> \<not> token 293)"
  shows "store (snd (ensureLocalApp e host ck ik token w)) = store w"
  unfolding ensureLocalApp_switch [OF assms(1-4)]
  using assms(5) by (auto simp: Let_def split: option.splits)

lemma switch_store:
  assumes "configuredInstallationPath e = Some p" "p \<noteq> []"
    and "get_installation (store w) ik = Some i" "path i \<noteq> p" "ck \<noteq> ik"
  shows "get_installation (store (snd (ensureLocalApp e host ck ik token w))) ik =
           (if access_X_OK e p = None \<and> \<not> token 293 then Some \<lparr>path = p, etag = None\<rparr> else Some i)"
  unfolding ensureLocalApp_switch [OF assms(1-4)]
  using assms(3,5)
  by (auto simp: Let_def ensureLocalApp_start_store get_installation_update_other
      get_installation_update_same split: option.splits sum.splits)

lemma switch_result:
  assumes "configuredInstallationPath e = Some p" "p \<noteq> []"
    and "get_installation (store w) ik = Some i" "path i \<noteq> p"
    and "fst (ensureLocalApp e host ck ik token w) = Inr c"
  shows "spawn e p = Inr (pid c) \<and> Spawn p \<in> set (events (snd (ensureLocalApp e host ck ik token w)))
     \<and> get_config (store (snd (ensureLocalApp e host ck ik token w))) ck = Some c"
proof -
  let ?inst = "\<lparr>path = p, etag = None\<rparr>"
  let ?w3 = "globalState_update ik (Some (InstallationV ?inst))
               (emit (Access p) (kill_outdated (runningConfig e (store w) ck) w))"
  have r: "ensureLocalApp e host ck ik token w = ensureLocalApp_start e host ck ?inst token ?w3"
    using assms(5) unfolding ensureLocalApp_switch [OF assms(1-4)]
    by (auto simp: Let_def split: option.splits if_splits)
  have s: "fst (startLocalApp e host ?inst token ?w3) = Inr c"
    using assms(5) r ensureLocalApp_start_Inr by metis
  have "spawn e p = Inr (pid c)" using startLocalApp_Inr [OF s] by simp
  moreover have "Spawn p \<in> set (events (snd (ensureLocalApp_start e host ck ?inst token ?w3)))"
    using startLocalApp_Inr [OF s] s
    by (cases "startLocalApp e host ?inst token ?w3")
       (auto simp: ensureLocalApp_start_def Let_def)
  moreover have "get_config (store (snd (ensureLocalApp_start e host ck ?inst token ?w3))) ck = Some c"
    using ensureLocalApp_start_Inr [of e host ck ?inst token ?w3 c] assms(5) r
    by (simp add: get_config_update_same)
  ultimately show ?thesis using r by simp
qed

text \<open>
  Claim C6 as stated fails. A path is configured that differs from the stored one, and
  its executability check fails: process 77 has been signalled, yet the store still
  holds the old installation record and the entry of the old instance, and the
  configured path has not become the record. And when the check passes but the new
  process cannot be spawned, the record is the configured path while the entry of the
  signalled instance is still stored.
\<close>

theorem ensureLocalApp_switch_keeps_entries_counterexample:
  "events (snd (ensureLocalApp (exampleEnv\<lparr>configuredInstallationPath := Some ''/opt/lca'',
          access_X_OK := (\<lambda>q. Some (Thrown ''EACCES''))\<rparr>)
          ''https://gitpod.io'' ''config/gitpod.io''
          ''installation/gitpod.io'' (\<lambda>n. False) exampleWorld))
     = [Kill 77, Access ''/opt/lca'']
   \<and> get_installation (store (snd (ensureLocalApp (exampleEnv\<lparr>configuredInstallationPath := Some ''/opt/lca'',
          access_X_OK := (\<lambda>q. Some (Thrown ''EACCES''))\<rparr>)
          ''https://gitpod.io'' ''config/gitpod.io''
          ''installation/gitpod.io'' (\<lambda>n. False) exampleWorld))) ''installation/gitpod.io''
     = Some \<lparr>path = ''/tmp/lca'', etag = Some ''v1''\<rparr>
   \<and> get_config (store (snd (ensureLocalApp (exampleEnv\<lparr>configuredInstallationPath := Some ''/opt/lca'',
          access_X_OK := (\<lambda>q. Some (Thrown ''EACCES''))\<rparr>)
          ''https://gitpod.io'' ''config/gitpod.io''
          ''installation/gitpod.io'' (\<lambda>n. False) exampleWorld))) ''config/gitpod.io''
     = Some \<lparr>gitpodHost = ''https://gitpod.io'', configFile = ''/tmp/cfg'', apiPort = 3000,
              pid = 77, logPath = ''/tmp/lca.log''\<rparr>
   \<and> get_installation (store (snd (ensureLocalApp (exampleEnv\<lparr>configuredInstallationPath := Some ''/opt/lca'',
          spawn := (\<lambda>q. Inl (Thrown ''ENOEXEC''))\<rparr>)
          ''https://gitpod.io'' ''config/gitpod.io''
          ''installation/gitpod.io'' (\<lambda>n. False) exampleWorld))) ''installation/gitpod.io''
     = Some \<lparr>path = ''/opt/lca'', etag = None\<rparr>
   \<and> get_config (store (snd (ensureLocalApp (exampleEnv\<lparr>configuredInstallationPath := Some ''/opt/lca'',
          spawn := (\<lambda>q. Inl (Thrown ''ENOEXEC''))\<rparr>)
          ''https://gitpod.io'' ''config/gitpod.io''
          ''installation/gitpod.io'' (\<lambda>n. False) exampleWorld))) ''config/gitpod.io''
     = Some \<lparr>gitpodHost = ''https://gitpod.io'', configFile = ''/tmp/cfg'', apiPort = 3000,
              pid = 77, logPath = ''/tmp/lca.log''\<rparr>"
  by (simp add: ensureLocalApp_def ensureLocalApp_configured_def truthy_string_def
      runningConfig_def get_config_def get_installation_def gs_get_def gs_update_def
      checkRunning_def kill_outdated_def ensureLocalApp_start_def startLocalApp_def emit_def
      globalState_update_def Let_def exampleEnv_def exampleWorld_def)

text \<open>
  Claim C6, as amended. Let a path be configured that differs from the path of the stored
  installation (the two keys being different keys, as \<open>withLocalApp\<close> builds them). If
  an instance is stored and its process is alive, the trace of the call begins with the
  termination signal to that process, followed by the executability check of the
  configured path; with no live stored instance it begins with the check. After the
  check comes nothing more, or the write of the new record and then the start of the
  new process; no request to the network and no further signal occurs. When the check
  passes and the token has not fired at line 293, the stored record is the configured
  path with no tag; otherwise the store is left as it was, the old record and the entry
  of the old instance included. An instance the call returns is one it spawned from the
  configured path, and it is the instance then stored; the stored one is never
  returned.
\<close>

theorem ensureLocalApp_switches_to_configured_path:
  "configuredInstallationPath e = Some p \<and> p \<noteq> [] \<and> get_installation (store w) ik = Some i
   \<and> path i \<noteq> p \<and> ck \<noteq> ik
   \<longrightarrow>
     (\<forall>c. gs_get (store w) ck = Some (ConfigV c) \<and> proc_alive e (pid c) \<longrightarrow>
        (\<exists>rest. events (snd (ensureLocalApp e host ck ik token w))
                 = events w @ Kill (pid c) # Access p # rest
              \<and> (\<forall>h q. Fetch h q \<notin> set rest) \<and> (\<forall>q. Kill q \<notin> set rest)
              \<and> (rest = [] \<or> (\<exists>rest'. rest = Updated ik # rest'))))
     \<and> ((\<forall>c. gs_get (store w) ck = Some (ConfigV c) \<longrightarrow> \<not> proc_alive e (pid c)) \<longrightarrow>
        (\<exists>rest. events (snd (ensureLocalApp e host ck ik token w))
                 = events w @ Access p # rest
              \<and> (\<forall>h q. Fetch h q \<notin> set rest) \<and> (\<forall>q. Kill q \<notin> set rest)
              \<and> (rest = [] \<or> (\<exists>rest'. rest = Updated ik # rest'))))
     \<and> (access_X_OK e p = None \<and> \<not> token 293 \<longrightarrow>
          get_installation (store (snd (ensureLocalApp e host ck ik token w))) ik
            = Some \<lparr>path = p, etag = None\<rparr>)
     \<and> (\<not> (access_X_OK e p = None \<and> \<not> token 293) \<longrightarrow>
          store (snd (ensureLocalApp e host ck ik token w)) = store w)
     \<and> (\<forall>c'. fst (ensureLocalApp e host ck ik token w) = Inr c' \<longrightarrow>
            spawn e p = Inr (pid c')
            \<and> Spawn p \<in> set (events (snd (ensureLocalApp e host ck ik token w)))
            \<and> get_config (store (snd (ensureLocalApp e host ck ik token w))) ck = Some c')"
proof (intro impI)
  assume a: "configuredInstallationPath e = Some p \<and> p \<noteq> [] \<and> get_installation (store w) ik = Some i
   \<and> path i \<noteq> p \<and> ck \<noteq> ik"
  then have h: "configuredInstallationPath e = Some p" "p \<noteq> []"
    "get_installation (store w) ik = Some i" "path i \<noteq> p" "ck \<noteq> ik"
    by simp_all
  note ev = switch_events [where host=host and ck=ck and token=token, OF h(1-4)]
  have live: "\<forall>c. gs_get (store w) ck = Some (ConfigV c) \<and> proc_alive e (pid c) \<longrightarrow>
        (\<exists>rest. events (snd (ensureLocalApp e host ck ik token w))
                 = events w @ Kill (pid c) # Access p # rest
              \<and> (\<forall>h q. Fetch h q \<notin> set rest) \<and> (\<forall>q. Kill q \<notin> set rest)
              \<and> (rest = [] \<or> (\<exists>rest'. rest = Updated ik # rest')))"
  proof (intro allI impI)
    fix c
    assume "gs_get (store w) ck = Some (ConfigV c) \<and> proc_alive e (pid c)"
    then have "runningConfig e (store w) ck = Some c" by (simp add: runningConfig_live)
    then show "\<exists>rest. events (snd (ensureLocalApp e host ck ik token w))
                 = events w @ Kill (pid c) # Access p # rest
              \<and> (\<forall>h q. Fetch h q \<notin> set rest) \<and> (\<forall>q. Kill q \<notin> set rest)
              \<and> (rest = [] \<or> (\<exists>rest'. rest = Updated ik # rest'))"
      using ev by (simp add: kills_def)
  qed
  have dead: "(\<forall>c. gs_get (store w) ck = Some (ConfigV c) \<longrightarrow> \<not> proc_alive e (pid c)) \<longrightarrow>
        (\<exists>rest. events (snd (ensureLocalApp e host ck ik token w))
                 = events w @ Access p # rest
              \<and> (\<forall>h q. Fetch h q \<notin> set rest) \<and> (\<forall>q. Kill q \<notin> set rest)
              \<and> (rest = [] \<or> (\<exists>rest'. rest = Updated ik # rest')))"
  proof (intro impI)
    assume "\<forall>c. gs_get (store w) ck = Some (ConfigV c) \<longrightarrow> \<not> proc_alive e (pid c)"
    then have "runningConfig e (store w) ck = None" by (rule runningConfig_dead)
    then show "\<exists>rest. events (snd (ensureLocalApp e host ck ik token w))
                 = events w @ Access p # rest
              \<and> (\<forall>h q. Fetch h q \<notin> set rest) \<and> (\<forall>q. Kill q \<notin> set rest)
              \<and> (rest = [] \<or> (\<exists>rest'. rest = Updated ik # rest'))"
      using ev by (simp add: kills_def)
  qed
  have rec: "access_X_OK e p = None \<and> \<not> token 293 \<longrightarrow>
          get_installation (store (snd (ensureLocalApp e host ck ik token w))) ik
            = Some \<lparr>path = p, etag = None\<rparr>"
    using switch_store [where host=host and token=token, OF h] by simp
  have keep: "\<not> (access_X_OK e p = None \<and> \<not> token 293) \<longrightarrow>
          store (snd (ensureLocalApp e host ck ik token w)) = store w"
    using switch_unchanged [where host=host and ck=ck and token=token, OF h(1-4)] by blast
  have res: "\<forall>c'. fst (ensureLocalApp e host ck ik token w) = Inr c' \<longrightarrow>
            spawn e p = Inr (pid c')
            \<and> Spawn p \<in> set (events (snd (ensureLocalApp e host ck ik token w)))
            \<and> get_config (store (snd (ensureLocalApp e host ck ik token w))) ck = Some c'"
    using switch_result [where host=host and ck=ck and token=token, OF h(1-4)] by blast
  show "(\<forall>c. gs_get (store w) ck = Some (ConfigV c) \<and> proc_alive e (pid c) \<longrightarrow>
        (\<exists>rest. events (snd (ensureLocalApp e host ck ik token w))
                 = events w @ Kill (pid c) # Access p # rest
              \<and> (\<forall>h q. Fetch h q \<notin> set rest) \<and> (\<forall>q. Kill q \<notin> set rest)
              \<and> (rest = [] \<or> (\<exists>rest'. rest = Updated ik # rest'))))
     \<and> ((\<forall>c. gs_get (store w) ck = Some (ConfigV c) \<longrightarrow> \<not> proc_alive e (pid c)) \<longrightarrow>
        (\<exists>rest. events (snd (ensureLocalApp e host ck ik token w))
                 = events w @ Access p # rest
              \<and> (\<forall>h q. Fetch h q \<notin> set rest) \<and> (\<forall>q. Kill q \<notin> set rest)
              \<and> (rest = [] \<or> (\<exists>rest'. rest = Updated ik # rest'))))
     \<and> (access_X_OK e p = None \<and> \<not> token 293 \<longrightarrow>
          get_installation (store (snd (ensureLocalApp e host ck ik token w))) ik
            = Some \<lparr>path = p, etag = None\<rparr>)
     \<and> (\<not> (access_X_OK e p = None \<and> \<not> token 293) \<longrightarrow>
          store (snd (ensureLocalApp e host ck ik token w)) = store w)
     \<and> (\<forall>c'. fst (ensureLocalApp e host ck ik token w) = Inr c' \<longrightarrow>
            spawn e p = Inr (pid c')
            \<and> Spawn p \<in> set (events (snd (ensureLocalApp e host ck ik token w)))
            \<and> get_config (store (snd (ensureLocalApp e host ck ik token w))) ck = Some c')"
    using live dead rec keep res by (intro conjI)
qed

text \<open>
  A run of the theorem on the example: process 77 is alive and is signalled first, the
  check of \<open>/opt/lca\<close> passes, the record is written, and process 88 is spawned from
  \<open>/opt/lca\<close> and stored.
\<close>

theorem ensureLocalApp_switches_to_configured_path_witness:
  "configuredInstallationPath (exampleEnv\<lparr>configuredInstallationPath := Some ''/opt/lca''\<rparr>) = Some ''/opt/lca''
   \<and> ''/opt/lca'' \<noteq> []
   \<and> get_installation (store exampleWorld) ''installation/gitpod.io''
       = Some \<lparr>path = ''/tmp/lca'', etag = Some ''v1''\<rparr>
   \<and> path \<lparr>path = ''/tmp/lca'', etag = Some ''v1''\<rparr> \<noteq> ''/opt/lca''
   \<and> ''config/gitpod.io'' \<noteq> ''installation/gitpod.io''
   \<and> gs_get (store exampleWorld) ''config/gitpod.io'' = Some (ConfigV \<lparr>gitpodHost = ''https://gitpod.io'', configFile = ''/tmp/cfg'', apiPort = 3000,
              pid = 77, logPath = ''/tmp/lca.log''\<rparr>)
   \<and> proc_alive (exampleEnv\<lparr>configuredInstallationPath := Some ''/opt/lca''\<rparr>) 77
   \<and> access_X_OK (exampleEnv\<lparr>configuredInstallationPath := Some ''/opt/lca''\<rparr>) ''/opt/lca'' = None
   \<and> events (snd (ensureLocalApp (exampleEnv\<lparr>configuredInstallationPath := Some ''/opt/lca''\<rparr>)
          ''https://gitpod.io'' ''config/gitpod.io''
          ''installation/gitpod.io'' (\<lambda>n. False) exampleWorld))
       = [Kill 77, Access ''/opt/lca'', Updated ''installation/gitpod.io'',
          TmpFile ''gitpod_ssh_config'', Spawn ''/opt/lca'', Updated ''config/gitpod.io'']
   \<and> (\<exists>rest. events (snd (ensureLocalApp (exampleEnv\<lparr>configuredInstallationPath := Some ''/opt/lca''\<rparr>)
          ''https://gitpod.io'' ''config/gitpod.io''
          ''installation/gitpod.io'' (\<lambda>n. False) exampleWorld))
          = events exampleWorld @ Kill 77 # Access ''/opt/lca'' # rest
        \<and> (\<forall>h q. Fetch h q \<notin> set rest) \<and> (\<forall>q. Kill q \<notin> set rest))
   \<and> get_installation (store (snd (ensureLocalApp (exampleEnv\<lparr>configuredInstallationPath := Some ''/opt/lca''\<rparr>)
          ''https://gitpod.io'' ''config/gitpod.io''
          ''installation/gitpod.io'' (\<lambda>n. False) exampleWorld)))
        ''installation/gitpod.io''
       = Some \<lparr>path = ''/opt/lca'', etag = None\<rparr>"
proof -
  let ?e = "(exampleEnv\<lparr>configuredInstallationPath := Some ''/opt/lca''\<rparr>)"
  let ?c = "\<lparr>gitpodHost = ''https://gitpod.io'', configFile = ''/tmp/cfg'', apiPort = 3000,
              pid = 77, logPath = ''/tmp/lca.log''\<rparr>"
  have h1: "configuredInstallationPath ?e = Some ''/opt/lca''" by simp
  have h2: "get_installation (store exampleWorld) ''installation/gitpod.io''
       = Some \<lparr>path = ''/tmp/lca'', etag = Some ''v1''\<rparr>"
    by (simp add: exampleWorld_def get_installation_def gs_get_def)
  have h3: "access_X_OK ?e ''/opt/lca'' = None" by (simp add: exampleEnv_def)
  have h4: "gs_get (store exampleWorld) ''config/gitpod.io'' = Some (ConfigV ?c)"
    by (simp add: exampleWorld_def gs_get_def)
  have h5: "proc_alive ?e (pid ?c)" by (simp add: exampleEnv_def)
  have run: "events (snd (ensureLocalApp ?e ''https://gitpod.io'' ''config/gitpod.io''
          ''installation/gitpod.io'' (\<lambda>n. False) exampleWorld))
       = [Kill 77, Access ''/opt/lca'', Updated ''installation/gitpod.io'',
          TmpFile ''gitpod_ssh_config'', Spawn ''/opt/lca'', Updated ''config/gitpod.io'']"
    by (simp add: ensureLocalApp_def ensureLocalApp_configured_def truthy_string_def
      runningConfig_def get_config_def get_installation_def gs_get_def gs_update_def
      checkRunning_def kill_outdated_def ensureLocalApp_start_def startLocalApp_def emit_def
      globalState_update_def Let_def exampleEnv_def exampleWorld_def)
  note inst = ensureLocalApp_switches_to_configured_path [of ?e "''/opt/lca''" exampleWorld
        "''installation/gitpod.io''" "\<lparr>path = ''/tmp/lca'', etag = Some ''v1''\<rparr>"
        "''config/gitpod.io''" "''https://gitpod.io''" "\<lambda>n. False"]
  have pre: "configuredInstallationPath ?e = Some ''/opt/lca'' \<and> ''/opt/lca'' \<noteq> []
     \<and> get_installation (store exampleWorld) ''installation/gitpod.io''
         = Some \<lparr>path = ''/tmp/lca'', etag = Some ''v1''\<rparr>
     \<and> path \<lparr>path = ''/tmp/lca'', etag = Some ''v1''\<rparr> \<noteq> ''/opt/lca''
     \<and> ''config/gitpod.io'' \<noteq> ''installation/gitpod.io''"
    using h1 h2 by simp
  have sig: "\<exists>rest. events (snd (ensureLocalApp ?e ''https://gitpod.io'' ''config/gitpod.io''
          ''installation/gitpod.io'' (\<lambda>n. False) exampleWorld))
          = events exampleWorld @ Kill 77 # Access ''/opt/lca'' # rest
        \<and> (\<forall>h q. Fetch h q \<notin> set rest) \<and> (\<forall>q. Kill q \<notin> set rest)"
    using inst pre h4 h5 by auto
  have rec: "get_installation (store (snd (ensureLocalApp ?e ''https://gitpod.io'' ''config/gitpod.io''
          ''installation/gitpod.io'' (\<lambda>n. False) exampleWorld)))
        ''installation/gitpod.io'' = Some \<lparr>path = ''/opt/lca'', etag = None\<rparr>"
    using inst pre h3 by simp
  show ?thesis
    using pre h3 h4 h5 run sig rec by simp
qed

text \<open>
  Claim C10. Let a path be configured whose executability check fails, and let the check
  be reached: no stored instance is alive, or the stored installation has another path.
  Then the call throws the error of the check, the store is what it was, and the trace
  is the termination signal to the stored live instance, if any, followed by the check.
\<close>

theorem ensureLocalApp_failed_check_keeps_record:
  "configuredInstallationPath e = Some p \<and> p \<noteq> [] \<and> access_X_OK e p = Some err
   \<and> (runningConfig e (store w) ck = None
      \<or> (\<exists>i. get_installation (store w) ik = Some i \<and> path i \<noteq> p))
   \<longrightarrow>
     fst (ensureLocalApp e host ck ik token w) = Inl err
     \<and> store (snd (ensureLocalApp e host ck ik token w)) = store w
     \<and> events (snd (ensureLocalApp e host ck ik token w))
         = events w @ kills (runningConfig e (store w) ck) @ [Access p]"
  by (auto simp: ensureLocalApp_def ensureLocalApp_configured_def truthy_string_def Let_def
      kills_def split: option.splits)

text \<open>
  A run of the theorem on the example: process 77 is signalled, the check of \<open>/opt/lca\<close>
  fails, and the store still holds the installation \<open>/tmp/lca\<close>.
\<close>

theorem ensureLocalApp_failed_check_keeps_record_witness:
  "configuredInstallationPath (exampleEnv\<lparr>configuredInstallationPath := Some ''/opt/lca'',
        access_X_OK := (\<lambda>q. Some (Thrown ''EACCES''))\<rparr>) = Some ''/opt/lca''
   \<and> ''/opt/lca'' \<noteq> []
   \<and> access_X_OK (exampleEnv\<lparr>configuredInstallationPath := Some ''/opt/lca'',
        access_X_OK := (\<lambda>q. Some (Thrown ''EACCES''))\<rparr>) ''/opt/lca'' = Some (Thrown ''EACCES'')
   \<and> get_installation (store exampleWorld) ''installation/gitpod.io''
       = Some \<lparr>path = ''/tmp/lca'', etag = Some ''v1''\<rparr>
   \<and> fst (ensureLocalApp (exampleEnv\<lparr>configuredInstallationPath := Some ''/opt/lca'',
        access_X_OK := (\<lambda>q. Some (Thrown ''EACCES''))\<rparr>) ''https://gitpod.io''
        ''config/gitpod.io'' ''installation/gitpod.io'' (\<lambda>n. False) exampleWorld)
       = Inl (Thrown ''EACCES'')
   \<and> store (snd (ensureLocalApp (exampleEnv\<lparr>configuredInstallationPath := Some ''/opt/lca'',
        access_X_OK := (\<lambda>q. Some (Thrown ''EACCES''))\<rparr>) ''https://gitpod.io''
        ''config/gitpod.io'' ''installation/gitpod.io'' (\<lambda>n. False) exampleWorld))
       = store exampleWorld
   \<and> events (snd (ensureLocalApp (exampleEnv\<lparr>configuredInstallationPath := Some ''/opt/lca'',
        access_X_OK := (\<lambda>q. Some (Thrown ''EACCES''))\<rparr>) ''https://gitpod.io''
        ''config/gitpod.io'' ''installation/gitpod.io'' (\<lambda>n. False) exampleWorld))
       = [Kill 77, Access ''/opt/lca'']"
proof -
  let ?e = "exampleEnv\<lparr>configuredInstallationPath := Some ''/opt/lca'',
        access_X_OK := (\<lambda>q. Some (Thrown ''EACCES''))\<rparr>"
  have h1: "configuredInstallationPath ?e = Some ''/opt/lca''" by simp
  have h2: "access_X_OK ?e ''/opt/lca'' = Some (Thrown ''EACCES'')" by simp
  have h3: "get_installation (store exampleWorld) ''installation/gitpod.io''
       = Some \<lparr>path = ''/tmp/lca'', etag = Some ''v1''\<rparr>"
    by (simp add: exampleWorld_def get_installation_def gs_get_def)
  have h4: "kills (runningConfig ?e (store exampleWorld) ''config/gitpod.io'') = [Kill 77]"
    by (simp add: kills_def runningConfig_def get_config_def gs_get_def exampleWorld_def
        exampleEnv_def checkRunning_def)
  have h5: "events exampleWorld = []" by (simp add: exampleWorld_def)
  show ?thesis
    using h1 h2 h3 h4 h5
      ensureLocalApp_failed_check_keeps_record [of ?e "''/opt/lca''" "Thrown ''EACCES''"
        exampleWorld "''config/gitpod.io''" "''installation/gitpod.io''" "''https://gitpod.io''"
        "\<lambda>n. False"]
    by simp
qed

section \<open>Properties of \<open>ensureLocalApp\<close> without a configured path\<close>

lemma installLocalApp_store: "store (snd (installLocalApp e d token w)) = store w"
  by (simp add: installLocalApp_def Let_def split: sum.splits option.splits)

lemma installLocalApp_events:
  "\<exists>rest. events (snd (installLocalApp e d token w)) = events w @ TmpFile ''gitpod-local-companion'' # rest
     \<and> (\<forall>p. Kill p \<notin> set rest)"
  by (simp add: installLocalApp_def Let_def split: sum.splits option.splits)

lemma installLocalApp_Inr:
  "fst (installLocalApp e d token w) = Inr i \<Longrightarrow> etag i = headers_etag d"
  by (auto simp: installLocalApp_def Let_def split: sum.splits option.splits if_splits)

lemma probe_ok:
  assumes "fetch e host (downloadPath (platform e) (arch e)) = Inr response" "ok response" "\<not> token 301"
  shows "ensureLocalApp_probe e host token w
           = (Inr response, emit (Fetch host (downloadPath (platform e) (arch e))) w)"
  using assms by (simp add: ensureLocalApp_probe_def downloadLocalApp_def)

lemma probe_fst_world:
  "fst (ensureLocalApp_probe e host token w) = fst (ensureLocalApp_probe e host token w0)"
  by (simp add: ensureLocalApp_probe_def downloadLocalApp_def split: sum.splits)

lemma probe_snd:
  "snd (ensureLocalApp_probe e host token w) = emit (Fetch host (downloadPath (platform e) (arch e))) w"
  by (simp add: ensureLocalApp_probe_def downloadLocalApp_def split: sum.splits)

lemma ensureLocalApp_no_path:
  assumes "\<not> truthy_string (configuredInstallationPath e)"
  shows "ensureLocalApp e host ck ik token w =
     (case ensureLocalApp_default e host ik (runningConfig e (store w) ck)
             (get_installation (store w) ik) token w of
        (Inl err, w1) \<Rightarrow> (Inl err, w1)
      | (Inr (Inl c), w1) \<Rightarrow> (Inr c, w1)
      | (Inr (Inr i), w1) \<Rightarrow> ensureLocalApp_start e host ck i token w1)"
  using assms by (cases "configuredInstallationPath e") (simp_all add: ensureLocalApp_def Let_def)

text \<open>The call when the probe brings a new tag, step by step.\<close>

lemma ensureLocalApp_upgrade:
  assumes "\<not> truthy_string (configuredInstallationPath e)"
    and "get_installation (store w) ik = Some i"
    and "fetch e host (downloadPath (platform e) (arch e)) = Inr response" "ok response" "\<not> token 301"
    and "truthy_string (headers_etag response)" "headers_etag response \<noteq> etag i"
  shows "ensureLocalApp e host ck ik token w =
     (case installLocalApp e response token
             (kill_outdated (runningConfig e (store w) ck)
                (emit (Fetch host (downloadPath (platform e) (arch e))) w)) of
        (Inl err, w3) \<Rightarrow> (Inl err, w3)
      | (Inr i', w3) \<Rightarrow>
          if token 340 then (Inl Cancelled, globalState_update ik (Some (InstallationV i')) w3)
          else ensureLocalApp_start e host ck i' token
                 (globalState_update ik (Some (InstallationV i')) w3))"
  using assms
  by (simp add: ensureLocalApp_no_path ensureLocalApp_default_def probe_ok upgradeNeeded_def
      ensureLocalApp_install_def Let_def split: prod.splits sum.splits)

lemma ensureLocalApp_keep_running:
  assumes "\<not> truthy_string (configuredInstallationPath e)"
    and "runningConfig e (store w) ck = Some c"
    and "\<forall>i. get_installation (store w) ik = Some i \<longrightarrow>
           \<not> upgradeNeeded (fst (ensureLocalApp_probe e host token w)) i"
  shows "ensureLocalApp e host ck ik token w
           = (Inr c, emit (Fetch host (downloadPath (platform e) (arch e))) w)"
  using assms probe_snd [of e host token w]
  by (cases "ensureLocalApp_probe e host token w")
     (auto simp: ensureLocalApp_no_path ensureLocalApp_default_def Let_def
      split: option.splits)

lemma ensureLocalApp_keep_stopped:
  assumes "\<not> truthy_string (configuredInstallationPath e)"
    and "runningConfig e (store w) ck = None"
    and "get_installation (store w) ik = Some i"
    and "\<not> upgradeNeeded (fst (ensureLocalApp_probe e host token w)) i"
    and "access_X_OK e (path i) = None"
  shows "ensureLocalApp e host ck ik token w =
           (if token 332
            then (Inl Cancelled, emit (Access (path i)) (emit (Fetch host (downloadPath (platform e) (arch e))) w))
            else ensureLocalApp_start e host ck i token
                   (emit (Access (path i)) (emit (Fetch host (downloadPath (platform e) (arch e))) w)))"
  using assms probe_snd [of e host token w]
  by (cases "ensureLocalApp_probe e host token w")
     (auto simp: ensureLocalApp_no_path ensureLocalApp_default_def Let_def ensureLocalApp_install_def
      split: option.splits)


lemma upgrade_events:
  assumes "\<not> truthy_string (configuredInstallationPath e)"
    and "get_installation (store w) ik = Some i"
    and "fetch e host (downloadPath (platform e) (arch e)) = Inr response" "ok response" "\<not> token 301"
    and "truthy_string (headers_etag response)" "headers_etag response \<noteq> etag i"
  shows "\<exists>rest. events (snd (ensureLocalApp e host ck ik token w))
           = events w @ Fetch host (downloadPath (platform e) (arch e))
               # kills (runningConfig e (store w) ck) @ TmpFile ''gitpod-local-companion'' # rest
           \<and> (\<forall>q. Kill q \<notin> set rest)"
proof -
  let ?w2 = "kill_outdated (runningConfig e (store w) ck)
                (emit (Fetch host (downloadPath (platform e) (arch e))) w)"
  note up = ensureLocalApp_upgrade [where e=e and w=w and ik=ik and i=i and host=host and response=response and token=token and ck=ck, OF assms(1-7)]
  obtain r1 where r1: "events (snd (installLocalApp e response token ?w2))
      = events ?w2 @ TmpFile ''gitpod-local-companion'' # r1" "\<forall>q. Kill q \<notin> set r1"
    using installLocalApp_events by blast
  show ?thesis
  proof (cases "installLocalApp e response token ?w2")
    case (Pair res w3)
    have ev3: "events w3 = events ?w2 @ TmpFile ''gitpod-local-companion'' # r1"
      using r1(1) Pair by simp
    show ?thesis
    proof (cases res)
      case (Inl err)
      have "events (snd (ensureLocalApp e host ck ik token w))
           = events w @ Fetch host (downloadPath (platform e) (arch e))
               # kills (runningConfig e (store w) ck) @ TmpFile ''gitpod-local-companion'' # r1"
        unfolding up using Pair Inl ev3 by simp
      then show ?thesis using r1(2) by blast
    next
      case (Inr i')
      let ?w4 = "globalState_update ik (Some (InstallationV i')) w3"
      obtain evs where evs: "events (snd (ensureLocalApp_start e host ck i' token ?w4)) = events ?w4 @ evs"
        "set evs \<subseteq> {TmpFile ''gitpod_ssh_config'', Spawn (path i'), Updated ck}"
        using ensureLocalApp_start_events by blast
      have nokill: "\<forall>q. Kill q \<notin> set evs" using evs(2) by auto
      let ?rest = "r1 @ Updated ik # (if token 340 then [] else evs)"
      have "events (snd (ensureLocalApp e host ck ik token w))
           = events w @ Fetch host (downloadPath (platform e) (arch e))
               # kills (runningConfig e (store w) ck) @ TmpFile ''gitpod-local-companion'' # ?rest"
        unfolding up using Pair Inr ev3 evs(1) by simp
      moreover have "\<forall>q. Kill q \<notin> set ?rest" using r1(2) nokill by simp
      ultimately show ?thesis by blast
    qed
  qed
qed

lemma upgrade_result:
  assumes "\<not> truthy_string (configuredInstallationPath e)"
    and "get_installation (store w) ik = Some i"
    and "fetch e host (downloadPath (platform e) (arch e)) = Inr response" "ok response" "\<not> token 301"
    and "truthy_string (headers_etag response)" "headers_etag response \<noteq> etag i"
    and "ck \<noteq> ik" and res: "fst (ensureLocalApp e host ck ik token w) = Inr c"
  shows "\<exists>i'. get_installation (store (snd (ensureLocalApp e host ck ik token w))) ik = Some i'
          \<and> etag i' = headers_etag response \<and> spawn e (path i') = Inr (pid c)"
proof -
  let ?w2 = "kill_outdated (runningConfig e (store w) ck)
                (emit (Fetch host (downloadPath (platform e) (arch e))) w)"
  obtain r3 w3 where p: "installLocalApp e response token ?w2 = (r3, w3)"
    by (cases "installLocalApp e response token ?w2")
  obtain i' where i': "r3 = Inr i'" and t: "\<not> token 340"
    using res p unfolding ensureLocalApp_upgrade [where e=e and w=w and ik=ik and i=i and host=host and response=response and token=token and ck=ck, OF assms(1-7)]
    by (cases r3) (auto split: if_splits)
  let ?w4 = "globalState_update ik (Some (InstallationV i')) w3"
  have r: "ensureLocalApp e host ck ik token w = ensureLocalApp_start e host ck i' token ?w4"
    unfolding ensureLocalApp_upgrade [where e=e and w=w and ik=ik and i=i and host=host and response=response and token=token and ck=ck, OF assms(1-7)] using p i' t by simp
  have st: "fst (startLocalApp e host i' token ?w4) = Inr c"
    and sto: "store (snd (ensureLocalApp_start e host ck i' token ?w4))
               = gs_update ck (Some (ConfigV c)) (store ?w4)"
    using ensureLocalApp_start_Inr [of e host ck i' token ?w4 c] res r by simp_all
  have "get_installation (store (snd (ensureLocalApp e host ck ik token w))) ik = Some i'"
    using r sto assms(8)
    by (simp add: get_installation_update_other get_installation_update_same)
  moreover have "etag i' = headers_etag response"
    using installLocalApp_Inr [of e response token ?w2 i'] p i' by simp
  moreover have "spawn e (path i') = Inr (pid c)"
    using startLocalApp_Inr [OF st] by simp
  ultimately show ?thesis by blast
qed

lemma keep_stopped_facts:
  assumes "\<not> truthy_string (configuredInstallationPath e)"
    and "runningConfig e (store w) ck = None"
    and "get_installation (store w) ik = Some i"
    and "\<not> upgradeNeeded (fst (ensureLocalApp_probe e host token w)) i"
    and "access_X_OK e (path i) = None" and "ck \<noteq> ik"
  shows "get_installation (store (snd (ensureLocalApp e host ck ik token w))) ik = Some i
     \<and> (\<exists>rest. events (snd (ensureLocalApp e host ck ik token w))
             = events w @ Fetch host (downloadPath (platform e) (arch e)) # Access (path i) # rest
           \<and> (\<forall>p. Kill p \<notin> set rest) \<and> TmpFile ''gitpod-local-companion'' \<notin> set rest)"
proof -
  let ?w3 = "emit (Access (path i)) (emit (Fetch host (downloadPath (platform e) (arch e))) w)"
  obtain evs where evs: "events (snd (ensureLocalApp_start e host ck i token ?w3)) = events ?w3 @ evs"
    "set evs \<subseteq> {TmpFile ''gitpod_ssh_config'', Spawn (path i), Updated ck}"
    using ensureLocalApp_start_events by blast
  have no: "(\<forall>p. Kill p \<notin> set evs) \<and> TmpFile ''gitpod-local-companion'' \<notin> set evs"
    using evs(2) by auto
  have sto: "get_installation (store (snd (ensureLocalApp_start e host ck i token ?w3))) ik = Some i"
    using assms(3,6)
    by (simp add: ensureLocalApp_start_store get_installation_update_other split: sum.splits)
  show ?thesis
    unfolding ensureLocalApp_keep_stopped [OF assms(1-5)]
    using evs(1) no sto assms(3) by auto
qed

text \<open>The definitions a concrete run of \<open>ensureLocalApp\<close> unfolds.\<close>

lemmas ensure_defs = ensureLocalApp_def ensureLocalApp_default_def ensureLocalApp_probe_def
  downloadLocalApp_def downloadPath_def upgradeNeeded_def truthy_string_def runningConfig_def
  get_config_def get_installation_def gs_get_def gs_update_def checkRunning_def kill_outdated_def
  ensureLocalApp_install_def installLocalApp_def ensureLocalApp_start_def startLocalApp_def
  emit_def globalState_update_def Let_def exampleEnv_def exampleWorld_def

text \<open>
  Claim C7 as stated fails. The stored installation has the tag \<open>v1\<close>, its process 77 is
  alive, and the probe succeeds with a response that carries no tag. The two tags
  differ, yet the call sends no signal and installs nothing: it returns the stored
  instance, its trace is the one request, and the store is untouched.
\<close>

theorem ensureLocalApp_missing_tag_counterexample:
  "headers_etag \<lparr>ok = True, status = 200, statusText = ''OK'', headers_etag = None, url = ''u''\<rparr>
     \<noteq> etag \<lparr>path = ''/tmp/lca'', etag = Some ''v1''\<rparr>
   \<and> ensureLocalApp
       (exampleEnv\<lparr>fetch := (\<lambda>h q. Inr \<lparr>ok = True, status = 200, statusText = ''OK'',
                                          headers_etag = None, url = ''u''\<rparr>)\<rparr>)
       ''https://gitpod.io'' ''config/gitpod.io'' ''installation/gitpod.io'' (\<lambda>n. False) exampleWorld
     = (Inr \<lparr>gitpodHost = ''https://gitpod.io'', configFile = ''/tmp/cfg'', apiPort = 3000,
             pid = 77, logPath = ''/tmp/lca.log''\<rparr>,
        exampleWorld\<lparr>events := [Fetch ''https://gitpod.io'' ''/static/bin/gitpod-local-companion-linux'']\<rparr>)"
  by (simp add: ensure_defs)

text \<open>
  Claim C7, as amended. Let no path be configured, let an installation be stored, and let
  the probe succeed (the request is answered with an \<open>ok\<close> response and the token has not
  fired at line 301). If the response carries a non-empty tag that differs from the
  stored one: a stored instance whose process is alive is sent the termination signal
  right after the request, and with no live stored instance no signal is sent; in both
  cases the installation of the download comes next; and an instance the call returns
  was spawned from an installation that is stored with the tag of the response.
  Otherwise (the tag is equal, absent or empty): a stored instance whose process is
  alive is returned with nothing but the request done; and with no live stored
  instance and the stored binary executable, the stored installation stays, no signal
  is sent and nothing is installed.
\<close>

theorem ensureLocalApp_upgrade_on_new_tag:
  "\<not> truthy_string (configuredInstallationPath e) \<and> get_installation (store w) ik = Some i
   \<and> fetch e host (downloadPath (platform e) (arch e)) = Inr response \<and> ok response
   \<and> \<not> token 301 \<and> ck \<noteq> ik
   \<longrightarrow>
     (truthy_string (headers_etag response) \<and> headers_etag response \<noteq> etag i \<longrightarrow>
        (\<forall>c. gs_get (store w) ck = Some (ConfigV c) \<and> proc_alive e (pid c) \<longrightarrow>
           (\<exists>rest. events (snd (ensureLocalApp e host ck ik token w))
               = events w @ Fetch host (downloadPath (platform e) (arch e))
                   # Kill (pid c) # TmpFile ''gitpod-local-companion'' # rest
             \<and> (\<forall>q. Kill q \<notin> set rest)))
        \<and> ((\<forall>c. gs_get (store w) ck = Some (ConfigV c) \<longrightarrow> \<not> proc_alive e (pid c)) \<longrightarrow>
           (\<exists>rest. events (snd (ensureLocalApp e host ck ik token w))
               = events w @ Fetch host (downloadPath (platform e) (arch e))
                   # TmpFile ''gitpod-local-companion'' # rest
             \<and> (\<forall>q. Kill q \<notin> set rest)))
        \<and> (\<forall>c'. fst (ensureLocalApp e host ck ik token w) = Inr c' \<longrightarrow>
              (\<exists>i'. get_installation (store (snd (ensureLocalApp e host ck ik token w))) ik = Some i'
                    \<and> etag i' = headers_etag response \<and> spawn e (path i') = Inr (pid c'))))
     \<and> (\<not> (truthy_string (headers_etag response) \<and> headers_etag response \<noteq> etag i) \<longrightarrow>
        (\<forall>c. gs_get (store w) ck = Some (ConfigV c) \<and> proc_alive e (pid c) \<longrightarrow>
              ensureLocalApp e host ck ik token w
                = (Inr c, emit (Fetch host (downloadPath (platform e) (arch e))) w))
        \<and> ((\<forall>c. gs_get (store w) ck = Some (ConfigV c) \<longrightarrow> \<not> proc_alive e (pid c))
            \<and> access_X_OK e (path i) = None \<longrightarrow>
              get_installation (store (snd (ensureLocalApp e host ck ik token w))) ik = Some i
              \<and> (\<exists>rest. events (snd (ensureLocalApp e host ck ik token w))
                      = events w @ Fetch host (downloadPath (platform e) (arch e))
                          # Access (path i) # rest
                    \<and> (\<forall>q. Kill q \<notin> set rest)
                    \<and> TmpFile ''gitpod-local-companion'' \<notin> set rest)))"
proof (intro impI)
  assume a: "\<not> truthy_string (configuredInstallationPath e) \<and> get_installation (store w) ik = Some i
   \<and> fetch e host (downloadPath (platform e) (arch e)) = Inr response \<and> ok response
   \<and> \<not> token 301 \<and> ck \<noteq> ik"
  then have h: "\<not> truthy_string (configuredInstallationPath e)" "get_installation (store w) ik = Some i"
    "fetch e host (downloadPath (platform e) (arch e)) = Inr response" "ok response"
    "\<not> token 301" "ck \<noteq> ik"
    by simp_all
  have probe: "fst (ensureLocalApp_probe e host token w) = Inr response"
    using probe_ok [where e=e and host=host and response=response and token=token and w=w, OF h(3,4,5)]
    by simp
  have up: "upgradeNeeded (Inr response) i
      = (truthy_string (headers_etag response) \<and> headers_etag response \<noteq> etag i)"
    by (simp add: upgradeNeeded_def)
  have new_live: "\<exists>rest. events (snd (ensureLocalApp e host ck ik token w))
               = events w @ Fetch host (downloadPath (platform e) (arch e))
                   # Kill (pid c) # TmpFile ''gitpod-local-companion'' # rest
             \<and> (\<forall>q. Kill q \<notin> set rest)"
    if n: "truthy_string (headers_etag response) \<and> headers_etag response \<noteq> etag i"
      and c: "gs_get (store w) ck = Some (ConfigV c) \<and> proc_alive e (pid c)" for c
  proof -
    have rc: "runningConfig e (store w) ck = Some c" using c by (simp add: runningConfig_live)
    have "\<exists>rest. events (snd (ensureLocalApp e host ck ik token w))
           = events w @ Fetch host (downloadPath (platform e) (arch e))
               # kills (runningConfig e (store w) ck) @ TmpFile ''gitpod-local-companion'' # rest
           \<and> (\<forall>q. Kill q \<notin> set rest)"
      using n h(1-5) by (intro upgrade_events [where e=e and w=w and ik=ik and i=i and host=host and response=response and token=token and ck=ck]) simp_all
    then show ?thesis using rc by (simp add: kills_def)
  qed
  have new_dead: "\<exists>rest. events (snd (ensureLocalApp e host ck ik token w))
               = events w @ Fetch host (downloadPath (platform e) (arch e))
                   # TmpFile ''gitpod-local-companion'' # rest
             \<and> (\<forall>q. Kill q \<notin> set rest)"
    if n: "truthy_string (headers_etag response) \<and> headers_etag response \<noteq> etag i"
      and d: "\<forall>c. gs_get (store w) ck = Some (ConfigV c) \<longrightarrow> \<not> proc_alive e (pid c)"
  proof -
    have rc: "runningConfig e (store w) ck = None" using d by (rule runningConfig_dead)
    have "\<exists>rest. events (snd (ensureLocalApp e host ck ik token w))
           = events w @ Fetch host (downloadPath (platform e) (arch e))
               # kills (runningConfig e (store w) ck) @ TmpFile ''gitpod-local-companion'' # rest
           \<and> (\<forall>q. Kill q \<notin> set rest)"
      using n h(1-5) by (intro upgrade_events [where e=e and w=w and ik=ik and i=i and host=host and response=response and token=token and ck=ck]) simp_all
    then show ?thesis using rc by (simp add: kills_def)
  qed
  have new_res: "\<exists>i'. get_installation (store (snd (ensureLocalApp e host ck ik token w))) ik = Some i'
                    \<and> etag i' = headers_etag response \<and> spawn e (path i') = Inr (pid c')"
    if n: "truthy_string (headers_etag response) \<and> headers_etag response \<noteq> etag i"
      and r: "fst (ensureLocalApp e host ck ik token w) = Inr c'" for c'
    using n r h by (intro upgrade_result [where e=e and w=w and ik=ik and i=i and host=host and response=response and token=token and ck=ck and c=c']) simp_all
  have keep_live: "ensureLocalApp e host ck ik token w
                = (Inr c, emit (Fetch host (downloadPath (platform e) (arch e))) w)"
    if n: "\<not> (truthy_string (headers_etag response) \<and> headers_etag response \<noteq> etag i)"
      and c: "gs_get (store w) ck = Some (ConfigV c) \<and> proc_alive e (pid c)" for c
  proof -
    have rc: "runningConfig e (store w) ck = Some c" using c by (simp add: runningConfig_live)
    show ?thesis
      using n h(2) probe up by (intro ensureLocalApp_keep_running [OF h(1) rc]) simp
  qed
  have keep_dead: "get_installation (store (snd (ensureLocalApp e host ck ik token w))) ik = Some i
              \<and> (\<exists>rest. events (snd (ensureLocalApp e host ck ik token w))
                      = events w @ Fetch host (downloadPath (platform e) (arch e))
                          # Access (path i) # rest
                    \<and> (\<forall>q. Kill q \<notin> set rest)
                    \<and> TmpFile ''gitpod-local-companion'' \<notin> set rest)"
    if n: "\<not> (truthy_string (headers_etag response) \<and> headers_etag response \<noteq> etag i)"
      and d: "(\<forall>c. gs_get (store w) ck = Some (ConfigV c) \<longrightarrow> \<not> proc_alive e (pid c))
            \<and> access_X_OK e (path i) = None"
  proof -
    have rc: "runningConfig e (store w) ck = None" using d by (simp add: runningConfig_dead)
    show ?thesis
      using n d rc probe up h(6) by (intro keep_stopped_facts [OF h(1) _ h(2)]) simp_all
  qed
  show "(truthy_string (headers_etag response) \<and> headers_etag response \<noteq> etag i \<longrightarrow>
        (\<forall>c. gs_get (store w) ck = Some (ConfigV c) \<and> proc_alive e (pid c) \<longrightarrow>
           (\<exists>rest. events (snd (ensureLocalApp e host ck ik token w))
               = events w @ Fetch host (downloadPath (platform e) (arch e))
                   # Kill (pid c) # TmpFile ''gitpod-local-companion'' # rest
             \<and> (\<forall>q. Kill q \<notin> set rest)))
        \<and> ((\<forall>c. gs_get (store w) ck = Some (ConfigV c) \<longrightarrow> \<not> proc_alive e (pid c)) \<longrightarrow>
           (\<exists>rest. events (snd (ensureLocalApp e host ck ik token w))
               = events w @ Fetch host (downloadPath (platform e) (arch e))
                   # TmpFile ''gitpod-local-companion'' # rest
             \<and> (\<forall>q. Kill q \<notin> set rest)))
        \<and> (\<forall>c'. fst (ensureLocalApp e host ck ik token w) = Inr c' \<longrightarrow>
              (\<exists>i'. get_installation (store (snd (ensureLocalApp e host ck ik token w))) ik = Some i'
                    \<and> etag i' = headers_etag response \<and> spawn e (path i') = Inr (pid c'))))
     \<and> (\<not> (truthy_string (headers_etag response) \<and> headers_etag response \<noteq> etag i) \<longrightarrow>
        (\<forall>c. gs_get (store w) ck = Some (ConfigV c) \<and> proc_alive e (pid c) \<longrightarrow>
              ensureLocalApp e host ck ik token w
                = (Inr c, emit (Fetch host (downloadPath (platform e) (arch e))) w))
        \<and> ((\<forall>c. gs_get (store w) ck = Some (ConfigV c) \<longrightarrow> \<not> proc_alive e (pid c))
            \<and> access_X_OK e (path i) = None \<longrightarrow>
              get_installation (store (snd (ensureLocalApp e host ck ik token w))) ik = Some i
              \<and> (\<exists>rest. events (snd (ensureLocalApp e host ck ik token w))
                      = events w @ Fetch host (downloadPath (platform e) (arch e))
                          # Access (path i) # rest
                    \<and> (\<forall>q. Kill q \<notin> set rest)
                    \<and> TmpFile ''gitpod-local-companion'' \<notin> set rest)))"
    using new_live new_dead new_res keep_live keep_dead by blast
qed

text \<open>
  A run of the theorem on the example: the tag changes from \<open>v1\<close> to \<open>v2\<close> while process
  77 is alive. The request is followed by the signal to process 77 and by the
  installation; the call returns the new process 88 with an installation stored under
  the tag \<open>v2\<close>.
\<close>

theorem ensureLocalApp_upgrade_on_new_tag_witness:
  "\<not> truthy_string (configuredInstallationPath exampleEnv)
   \<and> get_installation (store exampleWorld) ''installation/gitpod.io''
       = Some \<lparr>path = ''/tmp/lca'', etag = Some ''v1''\<rparr>
   \<and> fetch exampleEnv ''https://gitpod.io'' (downloadPath (platform exampleEnv) (arch exampleEnv))
       = Inr \<lparr>ok = True, status = 200, statusText = ''OK'', headers_etag = Some ''v2'',
              url = ''https://gitpod.io/static/bin/gitpod-local-companion-linux''\<rparr>
   \<and> truthy_string (Some ''v2'')
   \<and> ''config/gitpod.io'' \<noteq> ''installation/gitpod.io''
   \<and> gs_get (store exampleWorld) ''config/gitpod.io'' = Some (ConfigV \<lparr>gitpodHost = ''https://gitpod.io'', configFile = ''/tmp/cfg'', apiPort = 3000,
              pid = 77, logPath = ''/tmp/lca.log''\<rparr>)
   \<and> proc_alive exampleEnv 77
   \<and> events (snd (ensureLocalApp exampleEnv ''https://gitpod.io'' ''config/gitpod.io''
          ''installation/gitpod.io'' (\<lambda>n. False) exampleWorld))
       = [Fetch ''https://gitpod.io'' ''/static/bin/gitpod-local-companion-linux'', Kill 77,
          TmpFile ''gitpod-local-companion'', Download ''/tmp/gitpod-local-companion'',
          Chmod ''/tmp/gitpod-local-companion'', Updated ''installation/gitpod.io'',
          TmpFile ''gitpod_ssh_config'', Spawn ''/tmp/gitpod-local-companion'',
          Updated ''config/gitpod.io'']
   \<and> (\<exists>rest. events (snd (ensureLocalApp exampleEnv ''https://gitpod.io'' ''config/gitpod.io''
          ''installation/gitpod.io'' (\<lambda>n. False) exampleWorld))
          = events exampleWorld
              @ Fetch ''https://gitpod.io'' (downloadPath (platform exampleEnv) (arch exampleEnv))
              # Kill 77 # TmpFile ''gitpod-local-companion'' # rest
        \<and> (\<forall>q. Kill q \<notin> set rest))
   \<and> fst (ensureLocalApp exampleEnv ''https://gitpod.io'' ''config/gitpod.io''
          ''installation/gitpod.io'' (\<lambda>n. False) exampleWorld)
       = Inr \<lparr>gitpodHost = ''https://gitpod.io'', configFile = ''/tmp/gitpod_ssh_config'',
              apiPort = 4000, pid = 88, logPath = ''/tmp/gitpod-local-companion.log''\<rparr>
   \<and> (\<exists>i'. get_installation (store (snd (ensureLocalApp exampleEnv ''https://gitpod.io'' ''config/gitpod.io''
          ''installation/gitpod.io'' (\<lambda>n. False) exampleWorld)))
            ''installation/gitpod.io'' = Some i'
          \<and> etag i' = Some ''v2'' \<and> spawn exampleEnv (path i') = Inr 88)"
proof -
  let ?r = "\<lparr>ok = True, status = 200, statusText = ''OK'', headers_etag = Some ''v2'',
              url = ''https://gitpod.io/static/bin/gitpod-local-companion-linux''\<rparr>"
  let ?c = "\<lparr>gitpodHost = ''https://gitpod.io'', configFile = ''/tmp/gitpod_ssh_config'',
              apiPort = 4000, pid = 88, logPath = ''/tmp/gitpod-local-companion.log''\<rparr>"
  let ?old = "\<lparr>gitpodHost = ''https://gitpod.io'', configFile = ''/tmp/cfg'', apiPort = 3000,
              pid = 77, logPath = ''/tmp/lca.log''\<rparr>"
  have h1: "\<not> truthy_string (configuredInstallationPath exampleEnv)"
    by (simp add: exampleEnv_def truthy_string_def)
  have h2: "get_installation (store exampleWorld) ''installation/gitpod.io''
       = Some \<lparr>path = ''/tmp/lca'', etag = Some ''v1''\<rparr>"
    by (simp add: exampleWorld_def get_installation_def gs_get_def)
  have h3: "fetch exampleEnv ''https://gitpod.io'' (downloadPath (platform exampleEnv) (arch exampleEnv))
       = Inr ?r"
    by (simp add: exampleEnv_def downloadPath_def)
  have h4: "truthy_string (Some ''v2'')" by (simp add: truthy_string_def)
  have h5: "fst (ensureLocalApp exampleEnv ''https://gitpod.io'' ''config/gitpod.io''
          ''installation/gitpod.io'' (\<lambda>n. False) exampleWorld) = Inr ?c"
    by (simp add: ensure_defs)
  have h6: "gs_get (store exampleWorld) ''config/gitpod.io'' = Some (ConfigV ?old)"
    by (simp add: exampleWorld_def gs_get_def)
  have h7: "proc_alive exampleEnv (pid ?old)" by (simp add: exampleEnv_def)
  have run: "events (snd (ensureLocalApp exampleEnv ''https://gitpod.io'' ''config/gitpod.io''
          ''installation/gitpod.io'' (\<lambda>n. False) exampleWorld))
       = [Fetch ''https://gitpod.io'' ''/static/bin/gitpod-local-companion-linux'', Kill 77,
          TmpFile ''gitpod-local-companion'', Download ''/tmp/gitpod-local-companion'',
          Chmod ''/tmp/gitpod-local-companion'', Updated ''installation/gitpod.io'',
          TmpFile ''gitpod_ssh_config'', Spawn ''/tmp/gitpod-local-companion'',
          Updated ''config/gitpod.io'']"
    by (simp add: ensure_defs)
  note inst = ensureLocalApp_upgrade_on_new_tag [of exampleEnv exampleWorld
        "''installation/gitpod.io''" "\<lparr>path = ''/tmp/lca'', etag = Some ''v1''\<rparr>"
        "''https://gitpod.io''" ?r "\<lambda>n. False" "''config/gitpod.io''"]
  have sig: "\<exists>rest. events (snd (ensureLocalApp exampleEnv ''https://gitpod.io'' ''config/gitpod.io''
          ''installation/gitpod.io'' (\<lambda>n. False) exampleWorld))
          = events exampleWorld
              @ Fetch ''https://gitpod.io'' (downloadPath (platform exampleEnv) (arch exampleEnv))
              # Kill 77 # TmpFile ''gitpod-local-companion'' # rest
        \<and> (\<forall>q. Kill q \<notin> set rest)"
    using inst h1 h2 h3 h4 h6 h7 by auto
  have res: "\<exists>i'. get_installation (store (snd (ensureLocalApp exampleEnv ''https://gitpod.io'' ''config/gitpod.io''
          ''installation/gitpod.io'' (\<lambda>n. False) exampleWorld)))
            ''installation/gitpod.io'' = Some i'
          \<and> etag i' = Some ''v2'' \<and> spawn exampleEnv (path i') = Inr 88"
    using inst h1 h2 h3 h4 h5 by auto
  show ?thesis
    using h1 h2 h3 h4 h5 h6 h7 run sig res by simp
qed

lemma install_post:
  assumes "ensureLocalApp_install e ik d inst token w = (Inr (Inr i), w')"
  shows "(inst = Some i \<and> w' = w)
         \<or> (inst = None \<and> (\<exists>response. d = Inr response \<and> etag i = headers_etag response)
            \<and> store w' = gs_update ik (Some (InstallationV i)) (store w))"
proof (cases inst)
  case (Some j)
  then show ?thesis using assms by (simp add: ensureLocalApp_install_def)
next
  case None
  show ?thesis
  proof (cases d)
    case (Inl err)
    then show ?thesis using assms None by (simp add: ensureLocalApp_install_def)
  next
    case (Inr response)
    obtain r1 w1 where p: "installLocalApp e response token w = (r1, w1)"
      by (cases "installLocalApp e response token w")
    have s1: "store w1 = store w" using installLocalApp_store [of e response token w] p by simp
    have r1: "r1 = Inr i" and w': "w' = globalState_update ik (Some (InstallationV i)) w1"
      using assms None Inr p
      by (cases r1; simp add: ensureLocalApp_install_def Let_def split: if_splits)+
    have "etag i = headers_etag response"
      using installLocalApp_Inr [of e response token w i] p r1 by simp
    then show ?thesis using None Inr w' s1 by simp
  qed
qed

lemma default_post:
  assumes "ensureLocalApp_default e host ik config inst token w = (Inr x, w')"
  shows "case x of
           Inl c \<Rightarrow> config = Some c \<and> store w' = store w
                    \<and> (\<forall>i. inst = Some i \<longrightarrow> \<not> upgradeNeeded (fst (ensureLocalApp_probe e host token w)) i)
         | Inr i \<Rightarrow> \<not> upgradeNeeded (fst (ensureLocalApp_probe e host token w)) i
                    \<and> ((inst = Some i \<and> store w' = store w)
                       \<or> store w' = gs_update ik (Some (InstallationV i)) (store w))"
proof -
  obtain d w1 where p: "ensureLocalApp_probe e host token w = (d, w1)"
    by (cases "ensureLocalApp_probe e host token w")
  have w1: "w1 = emit (Fetch host (downloadPath (platform e) (arch e))) w"
    using probe_snd [of e host token w] p by simp
  define upgrading where "upgrading = (case inst of None \<Rightarrow> False | Some i \<Rightarrow> upgradeNeeded d i)"
  define w2 where "w2 = (if upgrading then kill_outdated config w1 else w1)"
  have s2: "store w2 = store w" by (simp add: w2_def w1)
  have fresh: "\<not> upgradeNeeded d i" if "\<exists>response. d = Inr response \<and> etag i = headers_etag response" for i
    using that by (auto simp: upgradeNeeded_def)
  have unf: "ensureLocalApp_default e host ik config inst token w =
     (case (if upgrading then None else config) of
        Some c \<Rightarrow> (Inr (Inl c), w2)
      | None \<Rightarrow>
          (case (if upgrading then None else inst) of
             None \<Rightarrow> ensureLocalApp_install e ik d None token w2
           | Some i \<Rightarrow>
               if token 332 then (Inl Cancelled, emit (Access (path i)) w2)
               else ensureLocalApp_install e ik d
                      (case access_X_OK e (path i) of Some err \<Rightarrow> None | None \<Rightarrow> Some i)
                      token (emit (Access (path i)) w2)))"
    using p by (simp add: ensureLocalApp_default_def Let_def upgrading_def w2_def split: option.splits)
  show ?thesis
  proof (cases "if upgrading then None else config")
    case (Some c)
    then have "x = Inl c" "w' = w2" "\<not> upgrading" "config = Some c"
      using assms unf by (auto split: if_splits)
    then show ?thesis using s2 p by (auto simp: upgrading_def)
  next
    case None
    note cfg = None
    show ?thesis
    proof (cases "if upgrading then None else inst")
      case None
      then have eq: "ensureLocalApp_install e ik d None token w2 = (Inr x, w')"
        using assms unf cfg by simp
      then obtain i where x: "x = Inr i"
        by (cases x) (auto simp: ensureLocalApp_install_def Let_def split: sum.splits prod.splits if_splits)
      show ?thesis
        using install_post [of e ik d None token w2 i w'] eq x fresh s2 p by auto
    next
      case (Some j)
      then have nu: "\<not> upgrading" and inst: "inst = Some j" by (auto split: if_splits)
      let ?inst2 = "case access_X_OK e (path j) of Some err \<Rightarrow> None | None \<Rightarrow> Some j"
      have eq: "ensureLocalApp_install e ik d ?inst2 token (emit (Access (path j)) w2) = (Inr x, w')"
        using assms unf cfg Some by (auto split: if_splits)
      then obtain i where x: "x = Inr i"
        by (cases x) (auto simp: ensureLocalApp_install_def Let_def split: sum.splits prod.splits if_splits option.splits)
      have keep: "\<not> upgradeNeeded d j" using nu inst by (simp add: upgrading_def)
      show ?thesis
        using install_post [of e ik d ?inst2 token "emit (Access (path j)) w2" i w'] eq x fresh s2 p
          keep inst
        by (auto split: option.splits)
    qed
  qed
qed

lemma runningConfig_Some:
  "runningConfig e st ck = Some c \<Longrightarrow> get_config st ck = Some c"
  by (auto simp: runningConfig_def split: option.splits if_splits)

lemma get_config_update_other:
  "ck \<noteq> ik \<Longrightarrow> get_config (gs_update ik v st) ck = get_config st ck"
  by (cases v) (simp_all add: get_config_def gs_get_update gs_get_delete)

lemma first_call_post:
  assumes np: "\<not> truthy_string (configuredInstallationPath e)" and ne: "ck \<noteq> ik"
    and r: "ensureLocalApp e host ck ik token w = (Inr c, w1)"
  shows "get_config (store w1) ck = Some c
     \<and> (\<forall>i. get_installation (store w1) ik = Some i \<longrightarrow>
            \<not> upgradeNeeded (fst (ensureLocalApp_probe e host token w)) i)"
proof -
  let ?config = "runningConfig e (store w) ck"
  let ?inst = "get_installation (store w) ik"
  obtain res w' where d: "ensureLocalApp_default e host ik ?config ?inst token w = (res, w')"
    by (cases "ensureLocalApp_default e host ik ?config ?inst token w")
  obtain x where res: "res = Inr x"
    using r d unfolding ensureLocalApp_no_path [OF np] by (cases res) auto
  note post = default_post [OF d [unfolded res]]
  show ?thesis
  proof (cases x)
    case (Inl c')
    then have "c' = c" "w1 = w'"
      using r d res unfolding ensureLocalApp_no_path [OF np] by auto
    then show ?thesis using post Inl by (auto dest: runningConfig_Some)
  next
    case (Inr i)
    then have st: "ensureLocalApp_start e host ck i token w' = (Inr c, w1)"
      using r d res unfolding ensureLocalApp_no_path [OF np] by auto
    have s1: "store w1 = gs_update ck (Some (ConfigV c)) (store w')"
      using ensureLocalApp_start_Inr [of e host ck i token w' c] st by simp
    have gi: "get_installation (store w') ik = Some i"
      using post Inr by (auto simp: get_installation_update_same)
    show ?thesis
      using s1 gi post Inr ne
      by (auto simp: get_config_update_same get_installation_update_other)
  qed
qed

text \<open>
  Claim C4 as stated fails. The stored record and instance are valid and the remote tag
  equals the stored one; each of two calls in a row returns the stored instance, and
  each performs the request to the network: the trace after the second call holds two
  requests.
\<close>

theorem ensureLocalApp_second_call_counterexample:
  "ensureLocalApp
       (exampleEnv\<lparr>fetch := (\<lambda>h q. Inr \<lparr>ok = True, status = 200, statusText = ''OK'',
                                          headers_etag = Some ''v1'', url = ''u''\<rparr>)\<rparr>)
       ''https://gitpod.io'' ''config/gitpod.io'' ''installation/gitpod.io'' (\<lambda>n. False) exampleWorld
     = (Inr \<lparr>gitpodHost = ''https://gitpod.io'', configFile = ''/tmp/cfg'', apiPort = 3000,
             pid = 77, logPath = ''/tmp/lca.log''\<rparr>,
        exampleWorld\<lparr>events := [Fetch ''https://gitpod.io'' ''/static/bin/gitpod-local-companion-linux'']\<rparr>)
  \<and> ensureLocalApp
       (exampleEnv\<lparr>fetch := (\<lambda>h q. Inr \<lparr>ok = True, status = 200, statusText = ''OK'',
                                          headers_etag = Some ''v1'', url = ''u''\<rparr>)\<rparr>)
       ''https://gitpod.io'' ''config/gitpod.io'' ''installation/gitpod.io'' (\<lambda>n. False)
       (exampleWorld\<lparr>events := [Fetch ''https://gitpod.io'' ''/static/bin/gitpod-local-companion-linux'']\<rparr>)
     = (Inr \<lparr>gitpodHost = ''https://gitpod.io'', configFile = ''/tmp/cfg'', apiPort = 3000,
             pid = 77, logPath = ''/tmp/lca.log''\<rparr>,
        exampleWorld\<lparr>events := [Fetch ''https://gitpod.io'' ''/static/bin/gitpod-local-companion-linux'',
                               Fetch ''https://gitpod.io'' ''/static/bin/gitpod-local-companion-linux'']\<rparr>)"
  by (simp add: ensure_defs)

text \<open>
  Claim C4, as amended. Let no path be configured and let a call return an instance. A
  second call on the store the first one left, with the same answers from the network
  and the token read alike at line 301, and with that instance's process alive, returns
  the same instance; it leaves the store as it was, so the stored installation is the
  same; and its trace is exactly one request to the network: no signal, no installation,
  no spawn.
\<close>

theorem ensureLocalApp_second_call_probes_only:
  "\<not> truthy_string (configuredInstallationPath e) \<and> ck \<noteq> ik
   \<and> ensureLocalApp e host ck ik token w = (Inr c, w1)
   \<and> alive2 (pid c) \<and> token2 301 = token 301
   \<longrightarrow>
     ensureLocalApp (e\<lparr>proc_alive := alive2\<rparr>) host ck ik token2 w1
       = (Inr c, emit (Fetch host (downloadPath (platform e) (arch e))) w1)
     \<and> get_installation
          (store (snd (ensureLocalApp (e\<lparr>proc_alive := alive2\<rparr>) host ck ik token2 w1))) ik
         = get_installation (store w1) ik"
proof (intro impI)
  assume a: "\<not> truthy_string (configuredInstallationPath e) \<and> ck \<noteq> ik
   \<and> ensureLocalApp e host ck ik token w = (Inr c, w1)
   \<and> alive2 (pid c) \<and> token2 301 = token 301"
  let ?e2 = "e\<lparr>proc_alive := alive2\<rparr>"
  have post: "get_config (store w1) ck = Some c"
     "\<forall>i. get_installation (store w1) ik = Some i \<longrightarrow>
            \<not> upgradeNeeded (fst (ensureLocalApp_probe e host token w)) i"
    using first_call_post [of e ck ik host token w c w1] a by simp_all
  have probe: "fst (ensureLocalApp_probe ?e2 host token2 w1) = fst (ensureLocalApp_probe e host token w)"
    using a by (simp add: ensureLocalApp_probe_def downloadLocalApp_def split: sum.splits)
  have rc: "runningConfig ?e2 (store w1) ck = Some c"
    using post(1) a by (simp add: runningConfig_def checkRunning_def)
  have np: "\<not> truthy_string (configuredInstallationPath ?e2)" using a by simp
  have eq: "ensureLocalApp ?e2 host ck ik token2 w1
       = (Inr c, emit (Fetch host (downloadPath (platform ?e2) (arch ?e2))) w1)"
    using post(2) probe by (intro ensureLocalApp_keep_running [OF np rc]) simp
  show "ensureLocalApp ?e2 host ck ik token2 w1
       = (Inr c, emit (Fetch host (downloadPath (platform e) (arch e))) w1)
     \<and> get_installation (store (snd (ensureLocalApp ?e2 host ck ik token2 w1))) ik
         = get_installation (store w1) ik"
    using eq by simp
qed

text \<open>
  A run of the theorem on the example: the first call upgrades and spawns process 88,
  the second call finds it alive and only probes.
\<close>

theorem ensureLocalApp_second_call_probes_only_witness:
  "\<not> truthy_string (configuredInstallationPath exampleEnv)
   \<and> ''config/gitpod.io'' \<noteq> ''installation/gitpod.io''
   \<and> fst (ensureLocalApp exampleEnv ''https://gitpod.io'' ''config/gitpod.io''
          ''installation/gitpod.io'' (\<lambda>n. False) exampleWorld)
       = Inr \<lparr>gitpodHost = ''https://gitpod.io'', configFile = ''/tmp/gitpod_ssh_config'',
              apiPort = 4000, pid = 88, logPath = ''/tmp/gitpod-local-companion.log''\<rparr>
   \<and> ensureLocalApp (exampleEnv\<lparr>proc_alive := (\<lambda>p. p = 88)\<rparr>) ''https://gitpod.io''
        ''config/gitpod.io'' ''installation/gitpod.io'' (\<lambda>n. False)
        (snd (ensureLocalApp exampleEnv ''https://gitpod.io'' ''config/gitpod.io''
               ''installation/gitpod.io'' (\<lambda>n. False) exampleWorld))
       = (Inr \<lparr>gitpodHost = ''https://gitpod.io'', configFile = ''/tmp/gitpod_ssh_config'',
               apiPort = 4000, pid = 88, logPath = ''/tmp/gitpod-local-companion.log''\<rparr>,
          emit (Fetch ''https://gitpod.io'' ''/static/bin/gitpod-local-companion-linux'')
            (snd (ensureLocalApp exampleEnv ''https://gitpod.io'' ''config/gitpod.io''
                   ''installation/gitpod.io'' (\<lambda>n. False) exampleWorld)))"
proof -
  let ?c = "\<lparr>gitpodHost = ''https://gitpod.io'', configFile = ''/tmp/gitpod_ssh_config'',
              apiPort = 4000, pid = 88, logPath = ''/tmp/gitpod-local-companion.log''\<rparr>"
  let ?first = "ensureLocalApp exampleEnv ''https://gitpod.io'' ''config/gitpod.io''
          ''installation/gitpod.io'' (\<lambda>n. False) exampleWorld"
  have h1: "\<not> truthy_string (configuredInstallationPath exampleEnv)"
    by (simp add: exampleEnv_def truthy_string_def)
  have h2: "fst ?first = Inr ?c"
    by (simp add: ensure_defs)
  have h3: "?first = (Inr ?c, snd ?first)"
    using h2 by (simp add: prod_eq_iff)
  have h4: "downloadPath (platform exampleEnv) (arch exampleEnv)
       = ''/static/bin/gitpod-local-companion-linux''"
    by (simp add: exampleEnv_def downloadPath_def)
  show ?thesis
    using h1 h2 h3 h4
      ensureLocalApp_second_call_probes_only [of exampleEnv "''config/gitpod.io''"
        "''installation/gitpod.io''" "''https://gitpod.io''" "\<lambda>n. False" exampleWorld ?c
        "snd ?first" "\<lambda>p. p = 88" "\<lambda>n. False"]
    by simp
qed

section \<open>Properties of the retry loop of \<open>withLocalApp\<close>\<close>

text \<open>
  Claim C5 as stated fails. With the instance's process dead and the token not fired, a
  failed call ends with the error of the RPC layer itself, be it the code for an
  unreachable endpoint; for another code the outcome with a dead process is the outcome
  with a live one, so no error of its own marks the dead instance. And with the
  caller's token fired, the failure of a call against a dead process ends in the
  cancellation error.
\<close>

theorem withLocalApp_dead_pid_counterexample:
  "withLocalApp_loop (Suc 0) (\<lambda>i. Inl (RpcError Unavailable) :: error + nat) (\<lambda>i p. False) (\<lambda>i. None)
      \<lparr>gitpodHost = ''https://gitpod.io'', configFile = ''/tmp/cfg'', apiPort = 3000,
        pid = 77, logPath = ''/tmp/lca.log''\<rparr> 0
     = Some (Inl (RpcError Unavailable))
   \<and> withLocalApp_loop (Suc 0) (\<lambda>i. Inl (RpcError (OtherCode 13)) :: error + nat) (\<lambda>i p. False) (\<lambda>i. None)
      \<lparr>gitpodHost = ''https://gitpod.io'', configFile = ''/tmp/cfg'', apiPort = 3000,
        pid = 77, logPath = ''/tmp/lca.log''\<rparr> 0
     = withLocalApp_loop (Suc 0) (\<lambda>i. Inl (RpcError (OtherCode 13)) :: error + nat) (\<lambda>i p. True) (\<lambda>i. None)
      \<lparr>gitpodHost = ''https://gitpod.io'', configFile = ''/tmp/cfg'', apiPort = 3000,
        pid = 77, logPath = ''/tmp/lca.log''\<rparr> 0
   \<and> withLocalApp_loop (Suc 0) (\<lambda>i. Inl (RpcError Unavailable) :: error + nat) (\<lambda>i p. False)
      (\<lambda>i. Some (\<lambda>site. True))
      \<lparr>gitpodHost = ''https://gitpod.io'', configFile = ''/tmp/cfg'', apiPort = 3000,
        pid = 77, logPath = ''/tmp/lca.log''\<rparr> 0
     = Some (Inl Cancelled)"
  by (simp add: withLocalApp_catch_def checkRunning_def throwIfCancelled_def)

text \<open>
  Claim C5, as amended. In every round, when the operation fails: if the caller's token
  has fired, the cancellation error is thrown; otherwise, if the process of the instance
  does not answer the probe, the error of the operation is rethrown as it is, without a
  retry; otherwise, if the error carries the code \<open>Unavailable\<close> or \<open>Unknown\<close>, the loop
  waits, throws the cancellation error if the token has fired by then, and else runs
  the next round, in which all of this is decided anew; any other error is rethrown as
  it is, without a retry.
\<close>

theorem withLocalApp_failure_classified:
  "op i = Inl err \<longrightarrow>
     withLocalApp_loop (Suc fuel) op aliveAt token config i =
       (if throwIfCancelled (token i) 364 then Some (Inl Cancelled)
        else if \<not> aliveAt i (pid config) then Some (Inl err)
        else if error_code err = Some Unavailable \<or> error_code err = Some Unknown
          then (if throwIfCancelled (token i) 370 then Some (Inl Cancelled)
                else withLocalApp_loop fuel op aliveAt token config (Suc i))
          else Some (Inl err))"
  by (simp add: withLocalApp_catch_def checkRunning_def Let_def)

text \<open>
  A run of the theorem: the first call finds the endpoint unavailable while the process
  is alive, the loop retries, and the second call succeeds.
\<close>

theorem withLocalApp_failure_classified_witness:
  "(\<lambda>i. if i = 0 then Inl (RpcError Unavailable) else Inr (5::nat)) 0 = Inl (RpcError Unavailable)
   \<and> withLocalApp_loop (Suc (Suc 0)) (\<lambda>i. if i = 0 then Inl (RpcError Unavailable) else Inr (5::nat))
        (\<lambda>i p. True) (\<lambda>i. None)
        \<lparr>gitpodHost = ''https://gitpod.io'', configFile = ''/tmp/cfg'', apiPort = 3000,
          pid = 77, logPath = ''/tmp/lca.log''\<rparr> 0
       = Some (Inr 5)"
proof -
  let ?op = "\<lambda>i::nat. if i = 0 then Inl (RpcError Unavailable) else (Inr (5::nat) :: error + nat)"
  let ?c = "\<lparr>gitpodHost = ''https://gitpod.io'', configFile = ''/tmp/cfg'', apiPort = 3000,
          pid = 77, logPath = ''/tmp/lca.log''\<rparr>"
  have h: "?op 0 = Inl (RpcError Unavailable)" by simp
  have next_round: "withLocalApp_loop (Suc 0) ?op (\<lambda>i p. True) (\<lambda>i. None) ?c (Suc 0) = Some (Inr 5)"
    by (simp add: throwIfCancelled_def)
  show ?thesis
    using h next_round
      withLocalApp_failure_classified [of ?op 0 "RpcError Unavailable" "Suc 0" "\<lambda>i p. True"
        "\<lambda>i. None" ?c]
    by (simp add: throwIfCancelled_def)
qed

end
